theory Spec2Isabelle
  imports Main
begin

section \<open>JavaScript values\<close>

text \<open>
  The script \<^verbatim>\<open>static/public/login/script.js\<close> only handles values that were decoded
  from JSON response bodies, and values it builds from them. They are modelled as finite
  trees. An object is the list of its own properties in the order JavaScript enumerates
  them. The value \<^verbatim>\<open>undefined\<close> is not a JSON value: an expression that may evaluate
  to it has type \<open>jsval option\<close>, with \<open>None\<close> for \<^verbatim>\<open>undefined\<close>.

  A character is one of the 256 values of \<open>char\<close>, read as the code point of the
  same number; a string with a character above \<^verbatim>\<open>U+00FF\<close> is outside the model.
\<close>

subsection \<open>Numbers\<close>

text \<open>
  The script does no arithmetic. It tests a number for truth, converts it to a string and
  serializes it, and all three are determined by the text that JavaScript prints for the
  number: the shortest decimal that rounds to it, laid out by \<^verbatim>\<open>Number::toString\<close>.
  A finite number is therefore represented by that text:
  \<^verbatim>\<open>7\<close>, \<^verbatim>\<open>-12\<close>, \<^verbatim>\<open>1.5\<close>, \<^verbatim>\<open>0.000001\<close>, \<^verbatim>\<open>1e+21\<close>, \<^verbatim>\<open>1.5e-7\<close>. Both zeros
  are printed \<^verbatim>\<open>0\<close> and are one number here. The model starts from decoded
  values: which number the numeral of a JSON text is decoded as is a matter of
  floating-point rounding and is not modelled (\<^verbatim>\<open>9007199254740993\<close> is decoded as the
  number that is printed \<^verbatim>\<open>9007199254740992\<close>). \<^verbatim>\<open>NaN\<close> is the value of no JSON
  text; \<^verbatim>\<open>Infinity\<close>, as which a numeral too large for a double is decoded, is
  outside the model.

  The decimal has at most 17 digits \<open>d1 ... dk\<close>, the first and the last of them not
  zero. With its point after the \<open>n\<close>-th digit, \<^verbatim>\<open>Number::toString\<close> has three
  layouts, after a minus sign for a negative number: the digits followed by \<open>n - k\<close>
  zeros when \<open>k \<le> n \<le> 21\<close>; the digits with a point, after \<^verbatim>\<open>0\<close> and up to five
  zeros when the number is below one, when \<open>-6 < n < k\<close> and \<open>n \<le> 21\<close>; and
  otherwise the first digit, a point and the other digits if there are any, \<^verbatim>\<open>e\<close>, a
  sign and the exponent \<open>n - 1\<close>, which is from 21 to 308 or from -7 to -324.
  \<open>js_number_text\<close> recognizes these texts. Each of them is a JSON number.
\<close>

definition is_digit :: "char \<Rightarrow> bool" where
  "is_digit c = (48 \<le> (of_char c :: nat) \<and> (of_char c :: nat) \<le> 57)"

definition digits_val :: "string \<Rightarrow> nat" where
  "digits_val s = foldl (\<lambda>a c. 10 * a + ((of_char c :: nat) - 48)) 0 s"

definition number_char :: "char \<Rightarrow> bool" where
  "number_char c =
     (is_digit c \<or> c = CHR ''-'' \<or> c = CHR ''+'' \<or> c = CHR ''.'' \<or> c = CHR ''e'')"

text \<open>A numeral without a leading zero, and the digits after a point.\<close>

definition plain_digits :: "string \<Rightarrow> bool" where
  "plain_digits ds = (ds \<noteq> [] \<and> list_all is_digit ds \<and> (hd ds \<noteq> CHR ''0'' \<or> tl ds = []))"

definition fraction_digits :: "string \<Rightarrow> bool" where
  "fraction_digits fs = (fs \<noteq> [] \<and> list_all is_digit fs \<and> last fs \<noteq> CHR ''0'')"

definition integer_layout :: "string \<Rightarrow> bool" where
  "integer_layout u = (plain_digits u \<and> length u \<le> 21)"

definition decimal_layout :: "string \<Rightarrow> bool" where
  "decimal_layout u =
     (let ip = takeWhile (\<lambda>c. c \<noteq> CHR ''.'') u;
          r = dropWhile (\<lambda>c. c \<noteq> CHR ''.'') u
      in r \<noteq> [] \<and> plain_digits ip \<and> length ip \<le> 21 \<and> fraction_digits (tl r)
         \<and> (ip = ''0'' \<longrightarrow> length (takeWhile (\<lambda>c. c = CHR ''0'') (tl r)) \<le> 5))"

definition exponent_layout :: "string \<Rightarrow> bool" where
  "exponent_layout u =
     (let m = takeWhile (\<lambda>c. c \<noteq> CHR ''e'') u;
          r = dropWhile (\<lambda>c. c \<noteq> CHR ''e'') u
      in (case m of
            [] \<Rightarrow> False
          | d # f \<Rightarrow>
              is_digit d \<and> d \<noteq> CHR ''0''
              \<and> (f = [] \<or> (hd f = CHR ''.'' \<and> fraction_digits (tl f))))
         \<and> (case r of
               e # s # ex \<Rightarrow>
                 plain_digits ex
                 \<and> ((s = CHR ''+'' \<and> 21 \<le> digits_val ex \<and> digits_val ex \<le> 308)
                    \<or> (s = CHR ''-'' \<and> 7 \<le> digits_val ex \<and> digits_val ex \<le> 324))
             | _ \<Rightarrow> False))"

text \<open>The digits of a text before its exponent, without the zeros at both ends.\<close>

definition significant :: "string \<Rightarrow> string" where
  "significant u =
     rev (dropWhile (\<lambda>c. c = CHR ''0'')
       (rev (dropWhile (\<lambda>c. c = CHR ''0'')
          (filter is_digit (takeWhile (\<lambda>c. c \<noteq> CHR ''e'') u)))))"

definition js_number_text :: "string \<Rightarrow> bool" where
  "js_number_text t =
     (t \<noteq> [] \<and> list_all number_char t
      \<and> (let u = (if hd t = CHR ''-'' then tl t else t)
         in (hd t = CHR ''-'' \<longrightarrow> u \<noteq> ''0'')
            \<and> (integer_layout u \<or> decimal_layout u \<or> exponent_layout u)
            \<and> length (significant u) \<le> 17))"

text \<open>
  The type of numbers; \<open>number_text n\<close> is the text of the number \<open>n\<close>, and
  \<open>num t\<close> is the number that JavaScript prints as \<open>t\<close>. On a string that is the text
  of no number, \<open>num\<close> is the number zero.
\<close>

typedef jsnum = "{t. js_number_text t}"
  morphisms number_text Abs_jsnum
  by (rule exI [of _ "''0''"])
     (simp add: js_number_text_def integer_layout_def plain_digits_def number_char_def is_digit_def
        significant_def)

setup_lifting type_definition_jsnum

lift_definition num :: "string \<Rightarrow> jsnum" is "\<lambda>t. if js_number_text t then t else ''0''"
proof -
  fix t :: string
  have "js_number_text ''0''"
    by (simp add: js_number_text_def integer_layout_def plain_digits_def number_char_def
          is_digit_def significant_def)
  then show "js_number_text (if js_number_text t then t else ''0'')" by simp
qed

instantiation jsnum :: equal
begin

lift_definition equal_jsnum :: "jsnum \<Rightarrow> jsnum \<Rightarrow> bool" is "(=)" .

instance
  by standard (transfer, simp)

end

subsection \<open>Values\<close>

datatype jsval =
    JNull
  | JBool bool
  | JNum jsnum
  | JStr string
  | JArr "jsval list"
  | JObj "(string \<times> jsval) list"

text \<open>The exceptions the script can meet.\<close>

datatype js_error = TypeError | SyntaxError | RangeError | NetworkFailure | StorageFailure

subsection \<open>Decimal numerals and array indices\<close>

fun dec_digits :: "nat \<Rightarrow> string" where
  "dec_digits n =
     (if n < 10 then [char_of (48 + n)]
      else dec_digits (n div 10) @ [char_of (48 + n mod 10)])"

declare dec_digits.simps [simp del]

text \<open>
  A property name is an array index when it is the canonical decimal numeral of a number
  below \<open>2^32 - 1\<close>. JavaScript enumerates such properties first, in ascending order.
\<close>

definition array_index :: "string \<Rightarrow> nat option" where
  "array_index k =
     (case k of
        [] \<Rightarrow> None
      | c # cs \<Rightarrow>
          if list_all is_digit k \<and> (cs = [] \<or> c \<noteq> CHR ''0'') \<and> digits_val k < 4294967295
          then Some (digits_val k) else None)"

subsection \<open>Properties\<close>

fun insert_index :: "nat \<Rightarrow> string \<Rightarrow> 'v \<Rightarrow> (string \<times> 'v) list \<Rightarrow> (string \<times> 'v) list" where
  "insert_index n k v [] = [(k, v)]"
| "insert_index n k v ((k', v') # ps) =
     (case array_index k' of
        Some m \<Rightarrow> if m < n then (k', v') # insert_index n k v ps else (k, v) # (k', v') # ps
      | None \<Rightarrow> (k, v) # (k', v') # ps)"

text \<open>
  Defining a data property: an existing property keeps its place and takes the new value;
  a new array index goes to its place among the indices; any other new name goes last.
\<close>

fun replace_value :: "string \<Rightarrow> 'v \<Rightarrow> (string \<times> 'v) list \<Rightarrow> (string \<times> 'v) list" where
  "replace_value k v [] = []"
| "replace_value k v ((k', v') # ps) =
     (if k' = k then (k', v) else (k', v')) # replace_value k v ps"

definition set_prop :: "(string \<times> 'v) list \<Rightarrow> string \<Rightarrow> 'v \<Rightarrow> (string \<times> 'v) list" where
  "set_prop ps k v =
     (if k \<in> set (map fst ps) then replace_value k v ps
      else (case array_index k of
              Some n \<Rightarrow> insert_index n k v ps
            | None \<Rightarrow> ps @ [(k, v)]))"

text \<open>
  Reading a property of a value that is not \<^verbatim>\<open>null\<close>. The names the script reads
  (\<^verbatim>\<open>access_token\<close>, \<^verbatim>\<open>jwt\<close>, \<^verbatim>\<open>token\<close>, \<^verbatim>\<open>detail\<close>, \<^verbatim>\<open>user_id\<close>, \<^verbatim>\<open>id\<close>,
  \<^verbatim>\<open>userId\<close>, \<^verbatim>\<open>username\<close>, \<^verbatim>\<open>user\<close>, \<^verbatim>\<open>name\<close>, \<^verbatim>\<open>email\<close>) are not defined on any
  built-in prototype, so only own properties matter.
\<close>

fun get_prop :: "jsval \<Rightarrow> string \<Rightarrow> jsval option" where
  "get_prop (JObj ps) k = map_of ps k"
| "get_prop (JArr xs) k =
     (if k = ''length'' then Some (JNum (num (dec_digits (length xs))))
      else (case array_index k of
              Some i \<Rightarrow> if i < length xs then Some (xs ! i) else None
            | None \<Rightarrow> None))"
| "get_prop (JStr s) k =
     (if k = ''length'' then Some (JNum (num (dec_digits (length s))))
      else (case array_index k of
              Some i \<Rightarrow> if i < length s then Some (JStr [s ! i]) else None
            | None \<Rightarrow> None))"
| "get_prop _ k = None"

text \<open>\<^verbatim>\<open>d.k\<close> throws a TypeError on \<^verbatim>\<open>null\<close>; \<^verbatim>\<open>d?.k\<close> is \<^verbatim>\<open>undefined\<close> there.\<close>

definition read_prop :: "jsval \<Rightarrow> string \<Rightarrow> js_error + jsval option" where
  "read_prop d k = (if d = JNull then Inl TypeError else Inr (get_prop d k))"

definition opt_prop :: "jsval \<Rightarrow> string \<Rightarrow> jsval option" where
  "opt_prop d k = (if d = JNull then None else get_prop d k)"

text \<open>The own enumerable properties that \<^verbatim>\<open>...d\<close> copies into an object literal.\<close>

fun own_props :: "jsval \<Rightarrow> (string \<times> jsval) list" where
  "own_props (JObj ps) = ps"
| "own_props (JArr xs) = zip (map dec_digits [0..<length xs]) xs"
| "own_props (JStr s) = zip (map dec_digits [0..<length s]) (map (\<lambda>c. JStr [c]) s)"
| "own_props _ = []"

definition spread :: "(string \<times> jsval) list \<Rightarrow> jsval \<Rightarrow> (string \<times> jsval) list" where
  "spread ps d = foldl (\<lambda>acc (k, v). set_prop acc k v) ps (own_props d)"

subsection \<open>Truthiness and the short-circuit operators\<close>

fun truthy :: "jsval \<Rightarrow> bool" where
  "truthy JNull = False"
| "truthy (JBool b) = b"
| "truthy (JNum n) = (number_text n \<noteq> ''0'')"
| "truthy (JStr s) = (s \<noteq> [])"
| "truthy (JArr xs) = True"
| "truthy (JObj ps) = True"

fun truthy_opt :: "jsval option \<Rightarrow> bool" where
  "truthy_opt None = False"
| "truthy_opt (Some v) = truthy v"

fun nullish :: "jsval option \<Rightarrow> bool" where
  "nullish None = True"
| "nullish (Some JNull) = True"
| "nullish (Some v) = False"

text \<open>\<^verbatim>\<open>a || b\<close> and \<^verbatim>\<open>a ?? b\<close>, and the same with a right operand that is defined.\<close>

definition or_else :: "jsval option \<Rightarrow> jsval option \<Rightarrow> jsval option" where
  "or_else a b = (if truthy_opt a then a else b)"

definition or_value :: "jsval option \<Rightarrow> jsval \<Rightarrow> jsval" where
  "or_value a v = (case a of None \<Rightarrow> v | Some x \<Rightarrow> if truthy x then x else v)"

definition coalesce :: "jsval option \<Rightarrow> jsval option \<Rightarrow> jsval option" where
  "coalesce a b = (if nullish a then b else a)"

definition coalesce_value :: "jsval option \<Rightarrow> jsval \<Rightarrow> jsval" where
  "coalesce_value a v = (case a of None \<Rightarrow> v | Some x \<Rightarrow> if x = JNull then v else x)"

section \<open>Token extraction and profile normalization\<close>

text \<open>
  \<^verbatim>\<open>pickToken(data)\<close>:
  \<^verbatim>\<open>return data?.access_token || data?.jwt || data?.token || null;\<close>
\<close>

definition pickToken :: "jsval \<Rightarrow> jsval" where
  "pickToken data =
     or_value
       (or_else (or_else (opt_prop data ''access_token'') (opt_prop data ''jwt''))
          (opt_prop data ''token''))
       JNull"

text \<open>
  The object literal of \<^verbatim>\<open>fetchUserProfile\<close>:
  \<^verbatim>\<open>
  const user = {
    user_id: data.user_id ?? data.id ?? data.userId ?? null,
    username: data.username ?? data.user ?? data.name ?? null,
    email: data.email ?? null,
    ...data, // conserva el resto
  };\<close>
  Every property read throws a TypeError when \<^verbatim>\<open>data\<close> is \<^verbatim>\<open>null\<close> and none throws
  otherwise, so the literal either throws at its first read or is evaluated to the end.
\<close>

definition canonical_fields :: "jsval \<Rightarrow> (string \<times> jsval) list" where
  "canonical_fields data =
     [(''user_id'',
         coalesce_value
           (coalesce (coalesce (get_prop data ''user_id'') (get_prop data ''id''))
              (get_prop data ''userId''))
           JNull),
      (''username'',
         coalesce_value
           (coalesce (coalesce (get_prop data ''username'') (get_prop data ''user''))
              (get_prop data ''name''))
           JNull),
      (''email'', coalesce_value (get_prop data ''email'') JNull)]"

definition normalize_profile :: "jsval \<Rightarrow> js_error + jsval" where
  "normalize_profile data =
     (case read_prop data ''user_id'' of
        Inl e \<Rightarrow> Inl e
      | Inr _ \<Rightarrow> Inr (JObj (spread (canonical_fields data) data)))"

section \<open>Text of values\<close>

fun join_with :: "string \<Rightarrow> string list \<Rightarrow> string" where
  "join_with sep [] = []"
| "join_with sep [x] = x"
| "join_with sep (x # y # ys) = x @ sep @ join_with sep (y # ys)"

text \<open>
  The string conversion that template literals, \<^verbatim>\<open>localStorage.setItem\<close>,
  \<^verbatim>\<open>URLSearchParams\<close>, \<^verbatim>\<open>textContent\<close> and \<^verbatim>\<open>alert\<close> apply to their arguments.
  For an object it calls the method \<^verbatim>\<open>toString\<close>, then \<^verbatim>\<open>valueOf\<close>. A decoded
  object inherits \<^verbatim>\<open>Object.prototype.toString\<close>, which gives \<^verbatim>\<open>[object Object]\<close>,
  unless it has a property \<^verbatim>\<open>toString\<close> of its own: the value of that property is no
  function and \<^verbatim>\<open>valueOf\<close> gives no primitive value, so the conversion throws a
  TypeError. An array is converted by \<^verbatim>\<open>Array.prototype.join\<close>, which converts
  every element but \<^verbatim>\<open>null\<close> and throws when one of these conversions throws.
\<close>

fun collect :: "('e + 'a) list \<Rightarrow> 'e + 'a list" where
  "collect [] = Inr []"
| "collect (x # xs) =
     (case x of
        Inl e \<Rightarrow> Inl e
      | Inr a \<Rightarrow> (case collect xs of Inl e \<Rightarrow> Inl e | Inr as \<Rightarrow> Inr (a # as)))"

fun to_text :: "jsval \<Rightarrow> js_error + string" where
  "to_text JNull = Inr ''null''"
| "to_text (JBool b) = Inr (if b then ''true'' else ''false'')"
| "to_text (JNum n) = Inr (number_text n)"
| "to_text (JStr s) = Inr s"
| "to_text (JArr xs) =
     (case collect (map (\<lambda>x. if x = JNull then Inr [] else to_text x) xs) of
        Inl e \<Rightarrow> Inl e
      | Inr ts \<Rightarrow> Inr (join_with '','' ts))"
| "to_text (JObj ps) =
     (if ''toString'' \<in> set (map fst ps) then Inl TypeError else Inr ''[object Object]'')"

definition hex_lower :: "nat \<Rightarrow> char" where
  "hex_lower n = (if n < 10 then char_of (48 + n) else char_of (87 + n))"

definition hex_upper :: "nat \<Rightarrow> char" where
  "hex_upper n = (if n < 10 then char_of (48 + n) else char_of (55 + n))"

text \<open>
  \<^verbatim>\<open>JSON.stringify\<close> without indentation. In a string it escapes the double quote
  (\<open>0x22\<close>), the backslash (\<open>0x5C\<close>) and the control characters below \<open>0x20\<close>.
\<close>

definition json_escape :: "char \<Rightarrow> string" where
  "json_escape c =
     (if c = CHR 0x22 then [CHR 0x5C, CHR 0x22]
      else if c = CHR 0x5C then [CHR 0x5C, CHR 0x5C]
      else if c = CHR 0x08 then [CHR 0x5C, CHR ''b'']
      else if c = CHR 0x0C then [CHR 0x5C, CHR ''f'']
      else if c = CHR 0x0A then [CHR 0x5C, CHR ''n'']
      else if c = CHR 0x0D then [CHR 0x5C, CHR ''r'']
      else if c = CHR 0x09 then [CHR 0x5C, CHR ''t'']
      else if (of_char c :: nat) < 32
      then [CHR 0x5C, CHR ''u'', CHR ''0'', CHR ''0'',
            hex_lower ((of_char c :: nat) div 16), hex_lower ((of_char c :: nat) mod 16)]
      else [c])"

definition quote_json :: "string \<Rightarrow> string" where
  "quote_json s = CHR 0x22 # concat (map json_escape s) @ [CHR 0x22]"

fun stringify :: "jsval \<Rightarrow> string" where
  "stringify JNull = ''null''"
| "stringify (JBool b) = (if b then ''true'' else ''false'')"
| "stringify (JNum n) = number_text n"
| "stringify (JStr s) = quote_json s"
| "stringify (JArr xs) = ''['' @ join_with '','' (map stringify xs) @ '']''"
| "stringify (JObj ps) =
     ''{'' @ join_with '','' (map (\<lambda>(k, v). quote_json k @ '':'' @ stringify v) ps) @ ''}''"

subsection \<open>Query strings\<close>

text \<open>
  \<^verbatim>\<open>URLSearchParams.prototype.toString\<close>: each name and value is encoded as UTF-8 and
  then byte by byte; ASCII letters, digits and \<^verbatim>\<open>* - . _\<close> stay, a space becomes
  \<^verbatim>\<open>+\<close>, every other byte becomes \<^verbatim>\<open>%XX\<close>.
\<close>

definition utf8_bytes :: "char \<Rightarrow> nat list" where
  "utf8_bytes c =
     (let n = (of_char c :: nat) in
      if n < 128 then [n] else [192 + n div 64, 128 + n mod 64])"

definition form_plain :: "nat \<Rightarrow> bool" where
  "form_plain b =
     ((48 \<le> b \<and> b \<le> 57) \<or> (65 \<le> b \<and> b \<le> 90) \<or> (97 \<le> b \<and> b \<le> 122)
      \<or> b = 42 \<or> b = 45 \<or> b = 46 \<or> b = 95)"

definition form_encode_byte :: "nat \<Rightarrow> string" where
  "form_encode_byte b =
     (if form_plain b then [char_of b]
      else if b = 32 then ''+''
      else [CHR ''%'', hex_upper (b div 16), hex_upper (b mod 16)])"

definition form_encode :: "string \<Rightarrow> string" where
  "form_encode s = concat (map form_encode_byte (concat (map utf8_bytes s)))"

definition form_pair :: "string \<times> string \<Rightarrow> string" where
  "form_pair p = form_encode (fst p) @ ''='' @ form_encode (snd p)"

definition url_search_params :: "(string \<times> string) list \<Rightarrow> string" where
  "url_search_params ps = join_with ''&'' (map form_pair ps)"

section \<open>The page and its environment\<close>

record request =
  req_method :: string
  req_url :: string
  req_headers :: "(string \<times> string) list"
  req_body :: "string option"

text \<open>
  A response: its status and its body as \<^verbatim>\<open>res.json()\<close> decodes it, \<open>None\<close> when
  the body is not JSON text.
\<close>

record response =
  status :: nat
  payload :: "jsval option"

definition ok :: "response \<Rightarrow> bool" where
  "ok res = (200 \<le> status res \<and> status res \<le> 299)"

definition json :: "response \<Rightarrow> js_error + jsval" where
  "json res = (case payload res of None \<Rightarrow> Inl SyntaxError | Some v \<Rightarrow> Inr v)"

text \<open>
  What the script does to the outside, in the order it does it. \<open>Fetch\<close> is a call of
  \<^verbatim>\<open>fetch\<close> and \<open>SetItem\<close> a call of \<^verbatim>\<open>localStorage.setItem\<close> with a key and a
  text, whether or not the call succeeds.
\<close>

datatype event =
    PreventDefault
  | Fetch request
  | SetItem string string
  | Alert string
  | Navigate string
  | ConsoleWarn
  | ConsoleError

text \<open>
  The page: the log of events, the content of \<^verbatim>\<open>localStorage\<close>, the text of the
  element \<^verbatim>\<open>#login-error\<close> (\<open>None\<close> when the page has no such element), and the
  address assigned to \<^verbatim>\<open>window.location.href\<close> (\<open>None\<close> while the login page stays).
\<close>

record world =
  events :: "event list"
  storage :: "string \<rightharpoonup> string"
  error_box :: "string option"
  location :: "string option"

text \<open>
  The environment: how a call of \<^verbatim>\<open>fetch\<close> ends, given the request and everything that
  happened before (\<open>Inl\<close> when \<^verbatim>\<open>fetch\<close> rejects: a network failure, or a request
  that the browser does not send, such as one with a line break in a header); which
  writes the storage refuses by throwing (quota exceeded, storage disabled); and the
  limits of the engine: the arrays that \<^verbatim>\<open>Array.prototype.join\<close> cannot convert and
  the values that \<^verbatim>\<open>JSON.stringify\<close> cannot serialize, because they are nested deeper
  than the stack allows or their text is longer than a string can be. Both functions
  throw a RangeError then.
\<close>

record env =
  net :: "event list \<Rightarrow> request \<Rightarrow> js_error + response"
  refuses :: "(string \<rightharpoonup> string) \<Rightarrow> string \<Rightarrow> string \<Rightarrow> bool"
  join_fails :: "jsval \<Rightarrow> bool"
  serialize_fails :: "jsval \<Rightarrow> bool"

definition ENDPOINT_LOGIN :: string where
  "ENDPOINT_LOGIN = ''/auth/login''"

definition PROFILE_CANDIDATES :: "string list" where
  "PROFILE_CANDIDATES = [''/auth/me'', ''/auth/user'', ''/auth/profile'']"

definition FRONT_REDIRECT :: string where
  "FRONT_REDIRECT = ''http://127.0.0.1:3000/''"

definition BROWSER_URL :: string where
  "BROWSER_URL = ''http://127.0.0.1:8000''"

definition emit :: "event \<Rightarrow> world \<Rightarrow> world" where
  "emit e w = w\<lparr>events := events w @ [e]\<rparr>"

definition fetch :: "env \<Rightarrow> request \<Rightarrow> world \<Rightarrow> (js_error + response) \<times> world" where
  "fetch E req w = (net E (events w) req, emit (Fetch req) w)"

definition setItem :: "env \<Rightarrow> string \<Rightarrow> string \<Rightarrow> world \<Rightarrow> (js_error + unit) \<times> world" where
  "setItem E k v w =
     (if refuses E (storage w) k v then (Inl StorageFailure, emit (SetItem k v) w)
      else (Inr (), (emit (SetItem k v) w)\<lparr>storage := (storage w)(k \<mapsto> v)\<rparr>))"

text \<open>
  The string conversion and \<^verbatim>\<open>JSON.stringify\<close> as the engine runs them. Only a value
  with parts can exhaust the engine; \<^verbatim>\<open>JSON.stringify\<close> also throws on cyclic
  structures and on BigInt values, which no decoded JSON body contains.
\<close>

definition to_string :: "env \<Rightarrow> jsval \<Rightarrow> js_error + string" where
  "to_string E v =
     (case v of
        JArr (x # xs) \<Rightarrow> if join_fails E v then Inl RangeError else to_text v
      | _ \<Rightarrow> to_text v)"

definition JSON_stringify :: "env \<Rightarrow> jsval \<Rightarrow> js_error + string" where
  "JSON_stringify E v =
     (case v of
        JArr (x # xs) \<Rightarrow> if serialize_fails E v then Inl RangeError else Inr (stringify v)
      | JObj (p # ps) \<Rightarrow> if serialize_fails E v then Inl RangeError else Inr (stringify v)
      | _ \<Rightarrow> Inr (stringify v))"

section \<open>The helpers of the script\<close>

text \<open>The default text of \<^verbatim>\<open>showError\<close>, \<^verbatim>\<open>"Error al iniciar sesion."\<close> with o acute.\<close>

definition default_error :: string where
  "default_error = ''Error al iniciar sesi'' @ [CHR 0xF3] @ ''n.''"

text \<open>
  \<^verbatim>\<open>showError(msg)\<close>: the text goes to the element \<^verbatim>\<open>#login-error\<close>, or to
  \<^verbatim>\<open>alert\<close> when the page has no such element. Both convert \<^verbatim>\<open>msg || "..."\<close> to a
  string first; when the conversion throws, nothing is shown and \<^verbatim>\<open>showError\<close>
  throws.
\<close>

definition display :: "string \<Rightarrow> world \<Rightarrow> world" where
  "display t w =
     (case error_box w of
        Some old \<Rightarrow> w\<lparr>error_box := Some t\<rparr>
      | None \<Rightarrow> emit (Alert t) w)"

definition showError :: "env \<Rightarrow> jsval \<Rightarrow> world \<Rightarrow> (js_error + unit) \<times> world" where
  "showError E msg w =
     (case to_string E (if truthy msg then msg else JStr default_error) of
        Inl e \<Rightarrow> (Inl e, w)
      | Inr t \<Rightarrow> (Inr (), display t w))"

definition clearError :: "world \<Rightarrow> world" where
  "clearError w = (case error_box w of Some old \<Rightarrow> w\<lparr>error_box := Some []\<rparr> | None \<Rightarrow> w)"

text \<open>
  \<^verbatim>\<open>saveSession({ jwt, user })\<close>: the two guarded writes of the \<^verbatim>\<open>try\<close> block, then the
  \<^verbatim>\<open>catch\<close> that only warns. An argument the caller leaves out is \<open>None\<close>.
  \<^verbatim>\<open>setItem\<close> converts the token to a string before it writes, and the profile is
  serialized before \<^verbatim>\<open>setItem\<close> is called: when either throws, nothing is written.
\<close>

definition save_jwt :: "env \<Rightarrow> jsval option \<Rightarrow> world \<Rightarrow> (js_error + unit) \<times> world" where
  "save_jwt E jwt w =
     (case jwt of
        None \<Rightarrow> (Inr (), w)
      | Some t \<Rightarrow>
          if truthy t
          then (case to_string E t of
                  Inl e \<Rightarrow> (Inl e, w)
                | Inr s \<Rightarrow> setItem E ''jwt'' s w)
          else (Inr (), w))"

definition save_user :: "env \<Rightarrow> jsval option \<Rightarrow> world \<Rightarrow> (js_error + unit) \<times> world" where
  "save_user E user w =
     (case user of
        None \<Rightarrow> (Inr (), w)
      | Some u \<Rightarrow>
          if truthy u
          then (case JSON_stringify E u of
                  Inl e \<Rightarrow> (Inl e, w)
                | Inr s \<Rightarrow> setItem E ''userdata'' s w)
          else (Inr (), w))"

definition saveSession :: "env \<Rightarrow> jsval option \<Rightarrow> jsval option \<Rightarrow> world \<Rightarrow> world" where
  "saveSession E jwt user w =
     (case save_jwt E jwt w of
        (Inl e, w1) \<Rightarrow> emit ConsoleWarn w1
      | (Inr u, w1) \<Rightarrow>
          (case save_user E user w1 of
             (Inl e, w2) \<Rightarrow> emit ConsoleWarn w2
           | (Inr u', w2) \<Rightarrow> w2))"

text \<open>
  \<^verbatim>\<open>fetchUserProfile(jwt)\<close>. The request of a candidate, given the text of the token
  in the template literal \<^verbatim>\<open>`Bearer ${jwt}`\<close>; and the rest of the \<^verbatim>\<open>try\<close> block,
  given how the \<^verbatim>\<open>fetch\<close> ended: \<open>Inl\<close> when something threw (the \<^verbatim>\<open>catch\<close> moves
  on to the next candidate), \<open>Inr None\<close> when the block ended without \<^verbatim>\<open>return\<close>,
  \<open>Inr (Some user)\<close> when it returned \<^verbatim>\<open>user\<close>.
\<close>

definition profile_request :: "string \<Rightarrow> string \<Rightarrow> request" where
  "profile_request bearer path =
     \<lparr>req_method = ''GET'', req_url = path,
      req_headers = [(''Authorization'', ''Bearer '' @ bearer),
                     (''Accept'', ''application/json'')],
      req_body = None\<rparr>"

definition try_candidate :: "js_error + response \<Rightarrow> js_error + jsval option" where
  "try_candidate out =
     (case out of
        Inl e \<Rightarrow> Inl e
      | Inr res \<Rightarrow>
          if ok res
          then (case json res of
                  Inl e \<Rightarrow> Inl e
                | Inr data \<Rightarrow>
                    (case normalize_profile data of
                       Inl e \<Rightarrow> Inl e
                     | Inr user \<Rightarrow> Inr (Some user)))
          else Inr None)"

text \<open>
  The loop over the candidates; the list is \<^verbatim>\<open>PROFILE_CANDIDATES\<close> in the script. The
  template literal is evaluated inside the \<^verbatim>\<open>try\<close> block, before \<^verbatim>\<open>fetch\<close> is called:
  when the conversion of the token throws, no request is sent and the loop moves on.
\<close>

fun fetchUserProfile :: "env \<Rightarrow> jsval \<Rightarrow> string list \<Rightarrow> world \<Rightarrow> jsval \<times> world" where
  "fetchUserProfile E jwt [] w = (JNull, w)"
| "fetchUserProfile E jwt (path # rest) w =
     (case to_string E jwt of
        Inl e \<Rightarrow> fetchUserProfile E jwt rest w
      | Inr bearer \<Rightarrow>
          (case fetch E (profile_request bearer path) w of
             (out, w') \<Rightarrow>
               (case try_candidate out of
                  Inr (Some user) \<Rightarrow> (user, w')
                | Inr None \<Rightarrow> fetchUserProfile E jwt rest w'
                | Inl e \<Rightarrow> fetchUserProfile E jwt rest w')))"

text \<open>
  \<^verbatim>\<open>redirectWithParams({ jwt, user })\<close>. \<open>user_string\<close> is the \<^verbatim>\<open>try\<close>/\<^verbatim>\<open>catch\<close>
  around \<^verbatim>\<open>JSON.stringify(user ?? {})\<close>, given how the serialization ended.
  \<open>redirect_url\<close> is the address, given the text of the token and \<^verbatim>\<open>userString\<close>.
  \<^verbatim>\<open>new URLSearchParams({...})\<close> converts the token to a string, outside any
  \<^verbatim>\<open>try\<close> of this function: when that conversion throws, \<^verbatim>\<open>redirectWithParams\<close>
  throws and nothing is assigned to \<^verbatim>\<open>window.location.href\<close>.
\<close>

definition user_string :: "js_error + string \<Rightarrow> string" where
  "user_string r = (case r of Inr s \<Rightarrow> s | Inl e \<Rightarrow> ''{}'')"

definition redirect_params :: "string \<Rightarrow> string \<Rightarrow> (string \<times> string) list" where
  "redirect_params jwt userString =
     [(''jwt'', jwt), (''browser_url'', BROWSER_URL), (''userdata'', userString)]"

definition redirect_url :: "string \<Rightarrow> string \<Rightarrow> string" where
  "redirect_url jwt userString =
     FRONT_REDIRECT @ ''?'' @ url_search_params (redirect_params jwt userString)"

definition visit :: "string \<Rightarrow> world \<Rightarrow> world" where
  "visit url w = (emit (Navigate url) w)\<lparr>location := Some url\<rparr>"

definition redirectWithParams :: "env \<Rightarrow> jsval \<Rightarrow> jsval option \<Rightarrow> world \<Rightarrow> (js_error + unit) \<times> world" where
  "redirectWithParams E jwt user w =
     (case to_string E jwt of
        Inl e \<Rightarrow> (Inl e, w)
      | Inr tok \<Rightarrow>
          (Inr (),
           visit (redirect_url tok (user_string (JSON_stringify E (coalesce_value user (JObj []))))) w))"

section \<open>The submit handler\<close>

definition login_request :: "(string \<times> string) list \<Rightarrow> request" where
  "login_request fd =
     \<lparr>req_method = ''POST'', req_url = ENDPOINT_LOGIN,
      req_headers = [(''Content-Type'', ''application/x-www-form-urlencoded''),
                     (''Accept'', ''application/json'')],
      req_body = Some (url_search_params fd)\<rparr>"

text \<open>The texts of the handler: "Credenciales invalidas." has an a acute.\<close>

definition MSG_CREDENTIALS :: string where
  "MSG_CREDENTIALS = ''Credenciales inv'' @ [CHR 0xE1] @ ''lidas.''"

definition MSG_NO_TOKEN :: string where
  "MSG_NO_TOKEN = ''No se recibi'' @ [CHR 0xF3] @ '' el token de acceso.''"

definition MSG_CONNECT :: string where
  "MSG_CONNECT = ''No se pudo conectar con el servidor.''"

text \<open>
  The outer \<^verbatim>\<open>catch\<close>:
  \<^verbatim>\<open>showError("No se pudo conectar con el servidor."); console.error(err);\<close>
  and the outer \<^verbatim>\<open>try\<close> around a step of the handler, given how the step ended.
\<close>

definition on_exception :: "env \<Rightarrow> world \<Rightarrow> world" where
  "on_exception E w =
     (case showError E (JStr MSG_CONNECT) w of
        (Inl e, w') \<Rightarrow> w'
      | (Inr u, w') \<Rightarrow> emit ConsoleError w')"

definition caught :: "env \<Rightarrow> (js_error + unit) \<times> world \<Rightarrow> world" where
  "caught E r = (case r of (Inl e, w) \<Rightarrow> on_exception E w | (Inr u, w) \<Rightarrow> w)"

text \<open>
  The branch \<^verbatim>\<open>if (!res.ok) { ... }\<close>: the message starts as the fallback and the inner
  \<^verbatim>\<open>try\<close> replaces it by \<^verbatim>\<open>err?.detail || message\<close> unless \<^verbatim>\<open>res.json()\<close> throws.
\<close>

definition failure_message :: "response \<Rightarrow> jsval" where
  "failure_message res =
     (case json res of
        Inl e \<Rightarrow> JStr MSG_CREDENTIALS
      | Inr err \<Rightarrow> or_value (opt_prop err ''detail'') (JStr MSG_CREDENTIALS))"

text \<open>
  The part of the handler after a token was extracted: store the token, look for the
  profile, store both, redirect.
\<close>

definition after_token :: "env \<Rightarrow> jsval \<Rightarrow> world \<Rightarrow> (js_error + unit) \<times> world" where
  "after_token E token w =
     (case fetchUserProfile E token PROFILE_CANDIDATES (saveSession E (Some token) None w) of
        (profile, w') \<Rightarrow>
          redirectWithParams E token (Some (if truthy profile then profile else JObj []))
            (if truthy profile then saveSession E (Some token) (Some profile) w' else w'))"

text \<open>
  The listener of the form's \<^verbatim>\<open>submit\<close> event; \<open>fd\<close> are the fields of the form. The
  two calls of \<^verbatim>\<open>showError\<close> and the steps after the token are inside the outer
  \<^verbatim>\<open>try\<close>.
\<close>

definition on_submit :: "env \<Rightarrow> (string \<times> string) list \<Rightarrow> world \<Rightarrow> world" where
  "on_submit E fd w =
     (case fetch E (login_request fd) (clearError (emit PreventDefault w)) of
        (Inl e, w1) \<Rightarrow> on_exception E w1
      | (Inr res, w1) \<Rightarrow>
          if \<not> ok res then caught E (showError E (failure_message res) w1)
          else (case json res of
                  Inl e \<Rightarrow> on_exception E w1
                | Inr data \<Rightarrow>
                    if \<not> truthy (pickToken data)
                    then caught E (showError E (JStr MSG_NO_TOKEN) w1)
                    else caught E (after_token E (pickToken data) w1)))"

section \<open>Notions the properties are stated with\<close>

text \<open>
  A candidate fails when the request ends in a network error, when the status is not a
  success status, or when the body is malformed: not JSON text, or the JSON value
  \<^verbatim>\<open>null\<close>, of which no property can be read.
\<close>

definition candidate_fails :: "js_error + response \<Rightarrow> bool" where
  "candidate_fails out =
     (case out of
        Inl e \<Rightarrow> True
      | Inr res \<Rightarrow> \<not> ok res \<or> payload res = None \<or> payload res = Some JNull)"

text \<open>
  The page after the profile requests for the paths \<open>ps\<close> were sent, in that order;
  \<open>bearer\<close> is the text of the token.
\<close>

definition contact :: "string \<Rightarrow> string list \<Rightarrow> world \<Rightarrow> world" where
  "contact bearer ps w = w\<lparr>events := events w @ map (\<lambda>p. Fetch (profile_request bearer p)) ps\<rparr>"

text \<open>Every candidate of the list fails, each asked in its turn.\<close>

fun all_fail :: "env \<Rightarrow> string \<Rightarrow> string list \<Rightarrow> world \<Rightarrow> bool" where
  "all_fail E bearer [] w = True"
| "all_fail E bearer (p # ps) w =
     (candidate_fails (net E (events w) (profile_request bearer p))
      \<and> all_fail E bearer ps (contact bearer [p] w))"

text \<open>
  The page once the handler has sent the login request, and the outcome of that request.
\<close>

definition submitted :: "(string \<times> string) list \<Rightarrow> world \<Rightarrow> world" where
  "submitted fd w = emit (Fetch (login_request fd)) (clearError (emit PreventDefault w))"

definition login_outcome :: "env \<Rightarrow> (string \<times> string) list \<Rightarrow> world \<Rightarrow> js_error + response" where
  "login_outcome E fd w = net E (events w @ [PreventDefault]) (login_request fd)"

text \<open>
  One call of \<^verbatim>\<open>saveSession\<close> with a truthy token that has the text \<open>tok\<close>, on the
  storage \<open>st\<close>: the events it adds to the log and the storage it leaves. \<open>ser\<close> is
  how the serialization of the profile ended, if a profile is passed. A write that the
  storage refuses, or a serialization that throws, is followed by the warning, and nothing
  more is written.
\<close>

definition persist_events :: "env \<Rightarrow> (string \<rightharpoonup> string) \<Rightarrow> string \<Rightarrow> (js_error + string) option \<Rightarrow> event list" where
  "persist_events E st tok ser =
     (if refuses E st ''jwt'' tok then [SetItem ''jwt'' tok, ConsoleWarn]
      else SetItem ''jwt'' tok #
        (case ser of
           None \<Rightarrow> []
         | Some (Inl e) \<Rightarrow> [ConsoleWarn]
         | Some (Inr s) \<Rightarrow>
             if refuses E (st(''jwt'' \<mapsto> tok)) ''userdata'' s
             then [SetItem ''userdata'' s, ConsoleWarn]
             else [SetItem ''userdata'' s]))"

definition persist_store :: "env \<Rightarrow> (string \<rightharpoonup> string) \<Rightarrow> string \<Rightarrow> (js_error + string) option \<Rightarrow> (string \<rightharpoonup> string)" where
  "persist_store E st tok ser =
     (if refuses E st ''jwt'' tok then st
      else (case ser of
              None \<Rightarrow> st(''jwt'' \<mapsto> tok)
            | Some (Inl e) \<Rightarrow> st(''jwt'' \<mapsto> tok)
            | Some (Inr s) \<Rightarrow>
                if refuses E (st(''jwt'' \<mapsto> tok)) ''userdata'' s then st(''jwt'' \<mapsto> tok)
                else st(''jwt'' \<mapsto> tok, ''userdata'' \<mapsto> s)))"

text \<open>
  A server that answers by the path of the request, with 404 for a path it does not know;
  a browser whose storage accepts every write and whose engine meets no limit; and a fresh
  login page.
\<close>

definition scripted :: "(string \<times> (js_error + response)) list \<Rightarrow> event list \<Rightarrow> request \<Rightarrow> js_error + response" where
  "scripted table evs req =
     (case map_of table (req_url req) of
        Some out \<Rightarrow> out
      | None \<Rightarrow> Inr \<lparr>status = 404, payload = None\<rparr>)"

definition browser :: "(string \<times> (js_error + response)) list \<Rightarrow> env" where
  "browser table =
     \<lparr>net = scripted table, refuses = (\<lambda>st k v. False),
      join_fails = (\<lambda>v. False), serialize_fails = (\<lambda>v. False)\<rparr>"

definition login_page :: world where
  "login_page = \<lparr>events = [], storage = Map.empty, error_box = Some [], location = None\<rparr>"

section \<open>Reading JSON text and query strings\<close>

text \<open>
  A reader for JSON text, used to say that a text is syntactically valid JSON. It reads
  the texts of RFC 8259 that have no white space, no number in another layout than that
  of JavaScript, and no escape above \<^verbatim>\<open>\u00ff\<close>, and nothing else: what it accepts
  is valid JSON.
  \<open>read_value\<close> takes the text and a bound on the number of nested calls; \<open>json_read\<close>
  gives it a bound that is enough for a text of that length, and asks that the whole text
  is read.
\<close>

definition hex_val :: "char \<Rightarrow> nat option" where
  "hex_val c =
     (let n = (of_char c :: nat) in
      if 48 \<le> n \<and> n \<le> 57 then Some (n - 48)
      else if 65 \<le> n \<and> n \<le> 70 then Some (n - 55)
      else if 97 \<le> n \<and> n \<le> 102 then Some (n - 87)
      else None)"

definition hex_pair :: "char \<Rightarrow> char \<Rightarrow> nat option" where
  "hex_pair a b =
     (case hex_val a of
        None \<Rightarrow> None
      | Some x \<Rightarrow> (case hex_val b of None \<Rightarrow> None | Some y \<Rightarrow> Some (16 * x + y)))"

definition push :: "'a \<Rightarrow> ('a list \<times> 'b) option \<Rightarrow> ('a list \<times> 'b) option" where
  "push x r = (case r of None \<Rightarrow> None | Some (xs, rest) \<Rightarrow> Some (x # xs, rest))"

fun read_chars :: "string \<Rightarrow> (string \<times> string) option" where
  "read_chars [] = None"
| "read_chars (c # r) =
     (if c = CHR 0x22 then Some ([], r)
      else if c = CHR 0x5C then
        (case r of
           [] \<Rightarrow> None
         | e # r1 \<Rightarrow>
             if e = CHR 0x22 \<or> e = CHR 0x5C \<or> e = CHR ''/'' then push e (read_chars r1)
             else if e = CHR ''b'' then push (CHR 0x08) (read_chars r1)
             else if e = CHR ''f'' then push (CHR 0x0C) (read_chars r1)
             else if e = CHR ''n'' then push (CHR 0x0A) (read_chars r1)
             else if e = CHR ''r'' then push (CHR 0x0D) (read_chars r1)
             else if e = CHR ''t'' then push (CHR 0x09) (read_chars r1)
             else if e = CHR ''u'' then
               (case r1 of
                  h1 # h2 # h3 # h4 # r2 \<Rightarrow>
                    (case hex_pair h1 h2 of
                       None \<Rightarrow> None
                     | Some hi \<Rightarrow>
                         (case hex_pair h3 h4 of
                            None \<Rightarrow> None
                          | Some lo \<Rightarrow>
                              if hi = 0 then push (char_of lo) (read_chars r2) else None))
                | _ \<Rightarrow> None)
             else None)
      else if (of_char c :: nat) < 32 then None
      else push c (read_chars r))"

definition read_number :: "string \<Rightarrow> (jsnum \<times> string) option" where
  "read_number s =
     (if js_number_text (takeWhile number_char s)
      then Some (num (takeWhile number_char s), dropWhile number_char s)
      else None)"

definition expect :: "string \<Rightarrow> string \<Rightarrow> string option" where
  "expect p s = (if take (length p) s = p then Some (drop (length p) s) else None)"

fun read_value :: "nat \<Rightarrow> string \<Rightarrow> (jsval \<times> string) option"
  and read_elements :: "nat \<Rightarrow> string \<Rightarrow> (jsval list \<times> string) option"
  and read_members :: "nat \<Rightarrow> string \<Rightarrow> ((string \<times> jsval) list \<times> string) option"
where
  "read_value 0 s = None"
| "read_value (Suc n) s =
     (case s of
        [] \<Rightarrow> None
      | c # r \<Rightarrow>
          if c = CHR ''n'' then map_option (Pair JNull) (expect ''ull'' r)
          else if c = CHR ''t'' then map_option (Pair (JBool True)) (expect ''rue'' r)
          else if c = CHR ''f'' then map_option (Pair (JBool False)) (expect ''alse'' r)
          else if c = CHR 0x22 then map_option (apfst JStr) (read_chars r)
          else if c = CHR ''['' then
            (case expect '']'' r of
               Some r1 \<Rightarrow> Some (JArr [], r1)
             | None \<Rightarrow> map_option (apfst JArr) (read_elements n r))
          else if c = CHR ''{'' then
            (case expect ''}'' r of
               Some r1 \<Rightarrow> Some (JObj [], r1)
             | None \<Rightarrow> map_option (apfst JObj) (read_members n r))
          else map_option (apfst JNum) (read_number s))"
| "read_elements 0 s = None"
| "read_elements (Suc n) s =
     (case read_value n s of
        None \<Rightarrow> None
      | Some (v, r) \<Rightarrow>
          (case r of
             [] \<Rightarrow> None
           | c # r1 \<Rightarrow>
               if c = CHR '','' then push v (read_elements n r1)
               else if c = CHR '']'' then Some ([v], r1)
               else None))"
| "read_members 0 s = None"
| "read_members (Suc n) s =
     (case s of
        [] \<Rightarrow> None
      | q # r \<Rightarrow>
          if q \<noteq> CHR 0x22 then None
          else (case read_chars r of
                  None \<Rightarrow> None
                | Some (k, r1) \<Rightarrow>
                    (case expect '':'' r1 of
                       None \<Rightarrow> None
                     | Some r2 \<Rightarrow>
                         (case read_value n r2 of
                            None \<Rightarrow> None
                          | Some (v, r3) \<Rightarrow>
                              (case r3 of
                                 [] \<Rightarrow> None
                               | c # r4 \<Rightarrow>
                                   if c = CHR '','' then push (k, v) (read_members n r4)
                                   else if c = CHR ''}'' then Some ([(k, v)], r4)
                                   else None)))))"

definition json_read :: "string \<Rightarrow> jsval option" where
  "json_read s =
     (case read_value (Suc (length s)) s of
        Some (v, []) \<Rightarrow> Some v
      | _ \<Rightarrow> None)"

definition json_valid :: "string \<Rightarrow> bool" where
  "json_valid s = (json_read s \<noteq> None)"

text \<open>
  The parser of \<^verbatim>\<open>application/x-www-form-urlencoded\<close> strings, which the receiving
  page applies to the query: split at \<^verbatim>\<open>&\<close>, split each part at its first \<^verbatim>\<open>=\<close>,
  turn \<^verbatim>\<open>+\<close> into a space and decode the percent-encoded UTF-8 bytes. It gives
  \<open>None\<close> on a malformed escape, where a browser would substitute a character.
  \<open>url_query\<close> is the part of an address between \<^verbatim>\<open>?\<close> and \<^verbatim>\<open>#\<close>.
\<close>

fun split_on :: "char \<Rightarrow> string \<Rightarrow> string list" where
  "split_on c [] = [[]]"
| "split_on c (x # xs) =
     (if x = c then [] # split_on c xs
      else (case split_on c xs of [] \<Rightarrow> [[x]] | y # ys \<Rightarrow> (x # y) # ys))"

fun form_decode :: "string \<Rightarrow> string option" where
  "form_decode [] = Some []"
| "form_decode (c # r) =
     (if c = CHR ''+'' then map_option ((#) (CHR '' '')) (form_decode r)
      else if c = CHR ''%'' then
        (case r of
           h1 # h2 # r1 \<Rightarrow>
             (case hex_pair h1 h2 of
                None \<Rightarrow> None
              | Some b \<Rightarrow>
                  if b < 128 then map_option ((#) (char_of b)) (form_decode r1)
                  else if 194 \<le> b \<and> b < 196 then
                    (case r1 of
                       p # h3 # h4 # r2 \<Rightarrow>
                         if p \<noteq> CHR ''%'' then None
                         else (case hex_pair h3 h4 of
                                 None \<Rightarrow> None
                               | Some b2 \<Rightarrow>
                                   if 128 \<le> b2 \<and> b2 < 192
                                   then map_option ((#) (char_of ((b - 192) * 64 + (b2 - 128))))
                                          (form_decode r2)
                                   else None)
                     | _ \<Rightarrow> None)
                  else None)
         | _ \<Rightarrow> None)
      else map_option ((#) c) (form_decode r))"

definition parse_pair :: "string \<Rightarrow> (string \<times> string) option" where
  "parse_pair s =
     (case form_decode (takeWhile (\<lambda>c. c \<noteq> CHR ''='') s) of
        None \<Rightarrow> None
      | Some k \<Rightarrow>
          (case form_decode (tl (dropWhile (\<lambda>c. c \<noteq> CHR ''='') s)) of
             None \<Rightarrow> None
           | Some v \<Rightarrow> Some (k, v)))"

definition parse_query :: "string \<Rightarrow> (string \<times> string) list option" where
  "parse_query q = those (map parse_pair (filter (\<lambda>s. s \<noteq> []) (split_on (CHR ''&'') q)))"

definition url_query :: "string \<Rightarrow> string" where
  "url_query u = takeWhile (\<lambda>c. c \<noteq> CHR ''#'') (tl (dropWhile (\<lambda>c. c \<noteq> CHR ''?'') u))"

text \<open>
  For the proofs: a text that follows a value inside an array or an object, the number
  of nested calls that reading a value back takes, the statement that a value is read
  back from its serialization, the text of one member of an object, and the characters
  that separate nothing in a query string.
\<close>

definition delimited :: "string \<Rightarrow> bool" where
  "delimited r = (case r of [] \<Rightarrow> True | c # r' \<Rightarrow> c = CHR '','' \<or> c = CHR '']'' \<or> c = CHR ''}'')"

fun fuel :: "jsval \<Rightarrow> nat" where
  "fuel (JArr xs) = Suc (sum_list (map (\<lambda>x. Suc (fuel x)) xs))"
| "fuel (JObj ps) = Suc (sum_list (map (\<lambda>(k, v). Suc (fuel v)) ps))"
| "fuel v = Suc 0"

definition reads :: "jsval \<Rightarrow> bool" where
  "reads v = (\<forall>n r. fuel v \<le> n \<longrightarrow> delimited r \<longrightarrow> read_value n (stringify v @ r) = Some (v, r))"

definition member_text :: "string \<times> jsval \<Rightarrow> string" where
  "member_text p = (case p of (k, v) \<Rightarrow> quote_json k @ '':'' @ stringify v)"

definition query_safe :: "char \<Rightarrow> bool" where
  "query_safe c = (c \<noteq> CHR ''&'' \<and> c \<noteq> CHR ''='' \<and> c \<noteq> CHR ''#'' \<and> c \<noteq> CHR ''?'')"

section \<open>The order of the properties of an object\<close>

text \<open>
  The property names of a JavaScript object: the array indices in ascending order, then
  the other names in the order they were added. \<open>js_keys C ks\<close> holds when \<open>ks\<close> is
  such a list whose other names start with the names \<open>C\<close>.
\<close>

definition idx :: "string \<Rightarrow> nat" where
  "idx k = (case array_index k of Some n \<Rightarrow> n | None \<Rightarrow> 0)"

definition index_keys :: "string list \<Rightarrow> bool" where
  "index_keys ks =
     (list_all (\<lambda>k. array_index k \<noteq> None) ks \<and> sorted_wrt (\<lambda>a b. idx a < idx b) ks)"

definition plain_keys :: "string list \<Rightarrow> bool" where
  "plain_keys ks = (list_all (\<lambda>k. array_index k = None) ks \<and> distinct ks)"

definition js_keys :: "string list \<Rightarrow> string list \<Rightarrow> bool" where
  "js_keys C ks = (\<exists>I R. ks = I @ C @ R \<and> index_keys I \<and> plain_keys (C @ R))"

section \<open>Facts about properties\<close>

lemma replace_value_absent: "k \<notin> set (map fst ps) \<Longrightarrow> replace_value k v ps = ps"
  by (induction ps) auto

lemma replace_value_append:
  "replace_value k v (ps @ qs) = replace_value k v ps @ replace_value k v qs"
  by (induction ps) auto

lemma keys_replace_value: "map fst (replace_value k v ps) = map fst ps"
  by (induction ps) auto

lemma map_of_replace_value:
  "map_of (replace_value k v ps) =
     (if k \<in> set (map fst ps) then (map_of ps)(k \<mapsto> v) else map_of ps)"
  by (induction ps) (auto simp: fun_eq_iff rev_image_eqI)

lemma map_of_insert_index:
  "k \<notin> set (map fst ps) \<Longrightarrow> map_of (insert_index n k v ps) = (map_of ps)(k \<mapsto> v)"
  by (induction ps) (auto simp: fun_eq_iff split: option.splits)

lemma map_of_snoc_new:
  "k \<notin> set (map fst ps) \<Longrightarrow> map_of (ps @ [(k, v)]) = (map_of ps)(k \<mapsto> v)"
  by (induction ps) (auto simp: fun_eq_iff)

lemma map_of_set_prop: "map_of (set_prop ps k v) = (map_of ps)(k \<mapsto> v)"
  unfolding set_prop_def
  using map_of_insert_index [of k ps _ v] map_of_snoc_new [of k ps v]
  by (simp add: map_of_replace_value split: option.splits)

lemma map_of_spread_fold:
  "map_of (foldl (\<lambda>acc (k, v). set_prop acc k v) ps qs) = map_of ps ++ map_of (rev qs)"
proof (induction qs arbitrary: ps)
  case Nil
  show ?case by simp
next
  case (Cons q qs)
  obtain k v where q: "q = (k, v)" by (cases q)
  have "map_of (foldl (\<lambda>acc (k, v). set_prop acc k v) ps (q # qs))
        = map_of (set_prop ps k v) ++ map_of (rev qs)"
    using Cons.IH [of "set_prop ps k v"] by (simp add: q)
  also have "\<dots> = map_of ps ++ map_of (rev (q # qs))"
    by (simp add: q map_of_set_prop fun_eq_iff map_add_def split: option.splits)
  finally show ?case .
qed

lemma map_of_rev_distinct: "distinct (map fst qs) \<Longrightarrow> map_of (rev qs) = map_of qs"
proof (induction qs)
  case Nil
  show ?case by simp
next
  case (Cons q qs)
  obtain k v where q: "q = (k, v)" by (cases q)
  from Cons.prems have k: "k \<notin> set (map fst qs)" and d: "distinct (map fst qs)"
    by (simp_all add: q)
  have "map_of (rev (q # qs)) = map_of [q] ++ map_of (rev qs)"
    by (simp add: map_of_append del: map_of.simps)
  also have "\<dots> = map_of [q] ++ map_of qs"
    using Cons.IH [OF d] by simp
  also have "\<dots> = map_of (q # qs)"
  proof -
    from k have "map_of qs k = None" by (simp add: map_of_eq_None_iff)
    then show ?thesis
      by (auto simp: q fun_eq_iff map_add_def split: option.splits)
  qed
  finally show ?case .
qed

lemma map_of_spread:
  "distinct (map fst (own_props d)) \<Longrightarrow> map_of (spread ps d) = map_of ps ++ map_of (own_props d)"
  by (simp add: spread_def map_of_spread_fold map_of_rev_distinct)


section \<open>Canonical numerals\<close>

lemma digits_val_snoc: "digits_val (ks @ [c]) = 10 * digits_val ks + ((of_char c :: nat) - 48)"
  by (simp add: digits_val_def)

lemma digit_char: "is_digit c \<Longrightarrow> char_of (48 + ((of_char c :: nat) - 48)) = c"
  by (simp add: is_digit_def)

lemma digit_less: "is_digit c \<Longrightarrow> (of_char c :: nat) - 48 < 10"
  by (auto simp: is_digit_def)

lemma char_zero_48: "(of_char c :: nat) = 48 \<Longrightarrow> c = CHR ''0''"
proof -
  assume "(of_char c :: nat) = 48"
  then have "(of_char c :: nat) = of_char (CHR ''0'')" by simp
  then show ?thesis by (simp only: of_char_eq_iff)
qed

lemma digits_val_pos:
  "ks \<noteq> [] \<Longrightarrow> list_all is_digit ks \<Longrightarrow> hd ks \<noteq> CHR ''0'' \<Longrightarrow> 0 < digits_val ks"
proof (induction ks rule: rev_induct)
  case Nil
  then show ?case by simp
next
  case (snoc c ks)
  show ?case
  proof (cases "ks = []")
    case True
    with snoc.prems have "is_digit c" "c \<noteq> CHR ''0''" by simp_all
    then have "(of_char c :: nat) \<noteq> 48"
      using char_zero_48 by blast
    with \<open>is_digit c\<close> show ?thesis
      by (simp add: True digits_val_def is_digit_def)
  next
    case False
    with snoc have "0 < digits_val ks" by simp
    then show ?thesis by (simp add: digits_val_snoc)
  qed
qed

lemma dec_digits_digits_val:
  "ks \<noteq> [] \<Longrightarrow> list_all is_digit ks \<Longrightarrow> tl ks = [] \<or> hd ks \<noteq> CHR ''0'' \<Longrightarrow>
   dec_digits (digits_val ks) = ks"
proof (induction ks rule: rev_induct)
  case Nil
  then show ?case by simp
next
  case (snoc c ks)
  from snoc.prems have c: "is_digit c" by simp
  show ?case
  proof (cases "ks = []")
    case True
    have "dec_digits ((of_char c :: nat) - 48) = [char_of (48 + ((of_char c :: nat) - 48))]"
      using digit_less [OF c] by (simp add: dec_digits.simps)
    then show ?thesis
      using digit_char [OF c] by (simp add: True digits_val_def)
  next
    case False
    with snoc.prems have ks: "list_all is_digit ks" "hd ks \<noteq> CHR ''0''"
      by auto
    have pos: "0 < digits_val ks" by (rule digits_val_pos [OF False ks])
    have ih: "dec_digits (digits_val ks) = ks"
      using snoc.IH [OF False ks(1)] ks(2) by simp
    let ?d = "(of_char c :: nat) - 48"
    let ?v = "10 * digits_val ks + ?d"
    have d: "?d < 10" by (rule digit_less [OF c])
    have "\<not> ?v < 10" using pos by simp
    then have "dec_digits ?v = dec_digits (?v div 10) @ [char_of (48 + ?v mod 10)]"
      by (subst dec_digits.simps) simp
    also have "?v div 10 = digits_val ks" using d by simp
    also have "?v mod 10 = ?d" using d by simp
    finally show ?thesis
      using ih digit_char [OF c] by (simp add: digits_val_snoc)
  qed
qed

lemma array_index_canonical: "array_index k = Some n \<Longrightarrow> dec_digits n = k"
  using dec_digits_digits_val [of k]
  by (auto simp: array_index_def split: list.splits if_splits)

lemma array_index_inj: "array_index a = Some n \<Longrightarrow> array_index b = Some n \<Longrightarrow> a = b"
  using array_index_canonical by metis

section \<open>Order of properties\<close>

lemma insert_index_skip:
  "list_all (\<lambda>p. array_index (fst p) \<noteq> None \<and> idx (fst p) < n) A \<Longrightarrow>
   insert_index n k v (A @ B) = A @ insert_index n k v B"
  by (induction A) (auto simp: idx_def)

lemma insert_index_here:
  "list_all (\<lambda>k. array_index k = None) (map fst B) \<Longrightarrow> insert_index n k v B = (k, v) # B"
  by (cases B) auto

lemma insert_index_keys:
  assumes "array_index k = Some n" and "list_all (\<lambda>k. array_index k = None) T"
  shows "map fst ps = I @ T \<Longrightarrow> index_keys I \<Longrightarrow> k \<notin> set I \<Longrightarrow>
         \<exists>I'. map fst (insert_index n k v ps) = I' @ T \<and> index_keys I' \<and> set I' = insert k (set I)"
proof (induction I arbitrary: ps)
  case Nil
  then have "insert_index n k v ps = (k, v) # ps"
    using insert_index_here [of ps] assms(2) by simp
  then have "map fst (insert_index n k v ps) = [k] @ T"
    using Nil by simp
  moreover have "index_keys [k]"
    using assms(1) by (simp add: index_keys_def)
  ultimately show ?case by (metis list.simps(15) empty_set)
next
  case (Cons a I)
  from Cons.prems(1) obtain va ps' where ps: "ps = (a, va) # ps'" and ps': "map fst ps' = I @ T"
    by (cases ps) auto
  from Cons.prems obtain m where m: "array_index a = Some m"
    by (auto simp: index_keys_def)
  from Cons.prems have run: "index_keys I" and notin: "k \<notin> set I" and ne: "a \<noteq> k"
    and below: "\<forall>q\<in>set I. m < idx q"
    using m by (auto simp: index_keys_def idx_def)
  show ?case
  proof (cases "m < n")
    case True
    from Cons.IH [OF ps' run notin] obtain I' where
      I': "map fst (insert_index n k v ps') = I' @ T" "index_keys I'" "set I' = insert k (set I)"
      by blast
    have "map fst (insert_index n k v ps) = (a # I') @ T"
      using True m I'(1) by (simp add: ps)
    moreover have "index_keys (a # I')"
      using I'(2,3) below True m assms(1) by (auto simp: index_keys_def idx_def)
    moreover have "set (a # I') = insert k (set (a # I))"
      using I'(3) by auto
    ultimately show ?thesis by blast
  next
    case False
    have "m \<noteq> n" using array_index_inj [OF m] assms(1) ne by blast
    with False have gt: "n < m" by simp
    have "map fst (insert_index n k v ps) = (k # a # I) @ T"
      using False m ps' by (simp add: ps)
    moreover have "index_keys (k # a # I)"
      using Cons.prems(2) gt m assms(1) below
      by (auto simp: index_keys_def idx_def)
    ultimately show ?thesis by (metis list.simps(15))
  qed
qed

lemma js_keys_set_prop:
  assumes "js_keys C (map fst ps)"
  shows "js_keys C (map fst (set_prop ps k v))"
proof -
  from assms obtain I R where ks: "map fst ps = I @ C @ R" and I: "index_keys I"
    and CR: "plain_keys (C @ R)"
    unfolding js_keys_def by blast
  show ?thesis
  proof (cases "k \<in> set (map fst ps)")
    case True
    then show ?thesis using assms by (simp add: set_prop_def keys_replace_value)
  next
    case False
    show ?thesis
    proof (cases "array_index k")
      case None
      have "map fst (set_prop ps k v) = I @ C @ (R @ [k])"
        using False None ks by (simp add: set_prop_def)
      moreover have "plain_keys (C @ R @ [k])"
        using CR None False ks by (auto simp: plain_keys_def)
      ultimately show ?thesis using I unfolding js_keys_def by blast
    next
      case (Some n)
      from CR have T: "list_all (\<lambda>k. array_index k = None) (C @ R)"
        by (simp add: plain_keys_def)
      from False ks have "k \<notin> set I" by auto
      from insert_index_keys [OF Some T ks I this, of v]
      obtain I' where "map fst (insert_index n k v ps) = I' @ C @ R" "index_keys I'"
        by auto
      then show ?thesis
        using False Some CR unfolding js_keys_def by (auto simp: set_prop_def)
    qed
  qed
qed

lemma js_keys_fold:
  "js_keys C (map fst ps) \<Longrightarrow>
   js_keys C (map fst (foldl (\<lambda>acc (k, v). set_prop acc k v) ps qs))"
  by (induction qs arbitrary: ps) (auto simp: js_keys_set_prop)

lemma fold_index_keys:
  assumes T: "list_all (\<lambda>k. array_index k = None) (map fst T)"
  shows "index_keys (map fst (J @ A)) \<Longrightarrow>
         foldl (\<lambda>acc (k, v). set_prop acc k v) (J @ T) A = J @ A @ T"
proof (induction A arbitrary: J)
  case Nil
  show ?case by simp
next
  case (Cons a A)
  obtain k v where a: "a = (k, v)" by (cases a)
  from Cons.prems obtain n where n: "array_index k = Some n"
    by (auto simp: index_keys_def a)
  from Cons.prems have below: "list_all (\<lambda>p. array_index (fst p) \<noteq> None \<and> idx (fst p) < n) J"
    using n by (auto simp: index_keys_def a idx_def sorted_wrt_append list_all_iff)
  then have "k \<notin> set (map fst J)"
    using n by (auto simp: list_all_iff idx_def)
  moreover have "k \<notin> set (map fst T)"
    using T n by (auto simp: list_all_iff)
  ultimately have "set_prop (J @ T) k v = insert_index n k v (J @ T)"
    using n by (simp add: set_prop_def)
  also have "\<dots> = J @ insert_index n k v T"
    by (rule insert_index_skip [OF below])
  also have "\<dots> = (J @ [(k, v)]) @ T"
    using insert_index_here [OF T] by simp
  finally have step: "set_prop (J @ T) k v = (J @ [(k, v)]) @ T" .
  have "index_keys (map fst ((J @ [(k, v)]) @ A))"
    using Cons.prems by (simp add: a)
  from Cons.IH [OF this] show ?case
    by (simp add: a step)
qed

lemma fold_plain_keys:
  "plain_keys (map fst B) \<Longrightarrow> set (map fst B) \<inter> set (map fst P) = {} \<Longrightarrow>
   foldl (\<lambda>acc (k, v). set_prop acc k v) P B = P @ B"
proof (induction B arbitrary: P)
  case Nil
  show ?case by simp
next
  case (Cons b B)
  obtain k v where b: "b = (k, v)" by (cases b)
  from Cons.prems have "k \<notin> set (map fst P)" "array_index k = None"
    by (auto simp: b plain_keys_def)
  then have step: "set_prop P k v = P @ [(k, v)]"
    by (simp add: set_prop_def)
  have "plain_keys (map fst B)" "set (map fst B) \<inter> set (map fst (P @ [(k, v)])) = {}"
    using Cons.prems by (auto simp: b plain_keys_def)
  from Cons.IH [OF this] show ?case
    by (simp add: b step)
qed

lemma canonical_names_plain:
  "array_index ''user_id'' = None" "array_index ''username'' = None"
  "array_index ''email'' = None"
  by (simp_all add: array_index_def is_digit_def)

lemma fold_canonical:
  assumes "list_all (\<lambda>k. array_index k \<noteq> None) (map fst A)"
  shows "foldl (\<lambda>acc (k, v). set_prop acc k v)
           (A @ [(''user_id'', a), (''username'', b), (''email'', c)])
           [(''user_id'', x), (''username'', y), (''email'', z)]
         = A @ [(''user_id'', x), (''username'', y), (''email'', z)]"
proof -
  have notin: "''user_id'' \<notin> set (map fst A)" "''username'' \<notin> set (map fst A)"
    "''email'' \<notin> set (map fst A)"
    using assms canonical_names_plain by (auto simp: list_all_iff)
  show ?thesis
    using notin
    by (simp add: set_prop_def replace_value_append replace_value_absent)
qed

lemma map_split:
  "map f xs = ys @ zs \<Longrightarrow> \<exists>us vs. xs = us @ vs \<and> map f us = ys \<and> map f vs = zs"
  by (auto simp: map_eq_append_conv)

lemma map_split3:
  assumes "map f xs = I @ C @ R"
  shows "\<exists>A M B. xs = A @ M @ B \<and> map f A = I \<and> map f M = C \<and> map f B = R"
proof -
  from map_split [OF assms] obtain A MB where 1: "xs = A @ MB" "map f A = I" "map f MB = C @ R"
    by blast
  from map_split [OF 1(3)] obtain M B where 2: "MB = M @ B" "map f M = C" "map f B = R"
    by blast
  from 1 2 show ?thesis by blast
qed

lemma respread_identity:
  assumes "js_keys [''user_id'', ''username'', ''email''] (map fst ps)"
  shows "foldl (\<lambda>acc (k, v). set_prop acc k v)
           [(''user_id'', a), (''username'', b), (''email'', c)] ps = ps"
proof -
  let ?f = "\<lambda>acc (k, v). set_prop acc k v"
  let ?C = "[(''user_id'', a), (''username'', b), (''email'', c)]"
  from assms obtain I R where ks: "map fst ps = I @ [''user_id'', ''username'', ''email''] @ R"
    and I: "index_keys I" and CR: "plain_keys ([''user_id'', ''username'', ''email''] @ R)"
    unfolding js_keys_def by blast
  define C where "C = [''user_id'', ''username'', ''email'']"
  from ks have "map fst ps = I @ C @ R" by (simp add: C_def)
  from map_split3 [OF this] obtain A M B where ps: "ps = A @ M @ B" and A: "map fst A = I"
    and MC: "map fst M = C" and B: "map fst B = R"
    by blast
  from MC have M: "map fst M = [''user_id'', ''username'', ''email'']" by (simp add: C_def)
  from M obtain x y z where M': "M = [(''user_id'', x), (''username'', y), (''email'', z)]"
    by (auto simp: map_eq_Cons_conv)
  have "foldl ?f ([] @ ?C) A = [] @ A @ ?C"
    by (rule fold_index_keys) (simp_all add: canonical_names_plain A I)
  then have s1: "foldl ?f ?C A = A @ ?C" by simp
  have "list_all (\<lambda>k. array_index k \<noteq> None) (map fst A)"
    using I A by (simp add: index_keys_def)
  then have s2: "foldl ?f (A @ ?C) M = A @ M"
    unfolding M' by (rule fold_canonical)
  have pB: "plain_keys (map fst B)" using CR B by (simp add: plain_keys_def)
  have "set R \<inter> set I = {}"
    using CR I by (auto simp: plain_keys_def index_keys_def list_all_iff)
  moreover have "set R \<inter> {''user_id'', ''username'', ''email''} = {}"
    using CR by (auto simp: plain_keys_def)
  ultimately have dB: "set (map fst B) \<inter> set (map fst (A @ M)) = {}"
    by (simp add: A B M Int_Un_distrib)
  have s3: "foldl ?f (A @ M) B = (A @ M) @ B"
    by (rule fold_plain_keys [OF pB dB])
  have "foldl ?f ?C (A @ M @ B) = foldl ?f (foldl ?f (foldl ?f ?C A) M) B"
    by (simp only: foldl_append)
  also have "\<dots> = A @ M @ B"
    by (simp only: s1 s2 s3 append_assoc)
  finally show ?thesis by (simp only: ps)
qed

lemma canonical_fields_shape:
  "\<exists>a b c. canonical_fields d = [(''user_id'', a), (''username'', b), (''email'', c)]"
  by (simp add: canonical_fields_def)

lemma js_keys_canonical: "js_keys [''user_id'', ''username'', ''email''] (map fst (canonical_fields d))"
proof -
  have "plain_keys ([''user_id'', ''username'', ''email''] @ [])"
    by (simp add: plain_keys_def canonical_names_plain)
  moreover have "index_keys []" by (simp add: index_keys_def)
  moreover have "map fst (canonical_fields d) = [] @ [''user_id'', ''username'', ''email''] @ []"
    by (simp add: canonical_fields_def)
  ultimately show ?thesis unfolding js_keys_def by blast
qed

lemma js_keys_spread: "js_keys [''user_id'', ''username'', ''email''] (map fst (spread (canonical_fields d) d))"
  unfolding spread_def by (rule js_keys_fold [OF js_keys_canonical])

lemma normalize_profile_object:
  "d \<noteq> JNull \<Longrightarrow> normalize_profile d = Inr (JObj (spread (canonical_fields d) d))"
  by (simp add: normalize_profile_def read_prop_def)

lemma spread_object: "spread ps (JObj qs) = foldl (\<lambda>acc (k, v). set_prop acc k v) ps qs"
  by (simp add: spread_def)

lemma normalize_profile_fixpoint:
  assumes "normalize_profile r = Inr u"
  shows "normalize_profile u = Inr u"
proof -
  from assms have r: "r \<noteq> JNull" and u: "u = JObj (spread (canonical_fields r) r)"
    by (auto simp: normalize_profile_def read_prop_def split: if_splits)
  let ?n = "spread (canonical_fields r) r"
  obtain a b c where c: "canonical_fields (JObj ?n) = [(''user_id'', a), (''username'', b), (''email'', c)]"
    using canonical_fields_shape by blast
  have "foldl (\<lambda>acc (k, v). set_prop acc k v) (canonical_fields (JObj ?n)) ?n = ?n"
    unfolding c by (rule respread_identity [OF js_keys_spread])
  then have "spread (canonical_fields (JObj ?n)) (JObj ?n) = ?n"
    by (simp add: spread_object)
  then show ?thesis
    by (simp add: u normalize_profile_object)
qed

section \<open>Facts about the effects\<close>

lemma emit_fields [simp]:
  "events (emit e w) = events w @ [e]" "storage (emit e w) = storage w"
  "error_box (emit e w) = error_box w" "location (emit e w) = location w"
  by (simp_all add: emit_def)

lemma contact_Nil [simp]: "contact t [] w = w"
  by (simp add: contact_def)

lemma contact_Cons: "contact t (p # ps) w = contact t ps (emit (Fetch (profile_request t p)) w)"
  by (simp add: contact_def emit_def)

lemma contact_snoc: "contact t (ps @ [p]) w = emit (Fetch (profile_request t p)) (contact t ps w)"
  by (simp add: contact_def emit_def)

lemma contact_one: "contact t [p] w = emit (Fetch (profile_request t p)) w"
  by (simp add: contact_def emit_def)

lemma to_string_string [simp]: "to_string E (JStr s) = Inr s"
  by (simp add: to_string_def)

lemma to_string_atoms:
  "to_string E JNull = Inr ''null''"
  "to_string E (JBool b) = Inr (if b then ''true'' else ''false'')"
  "to_string E (JNum n) = Inr (number_text n)"
  by (simp_all add: to_string_def)

lemma normalize_profile_result:
  "normalize_profile d = (if d = JNull then Inl TypeError else Inr (JObj (spread (canonical_fields d) d)))"
  by (simp add: normalize_profile_def read_prop_def)

lemma try_candidate_fails:
  "candidate_fails out \<Longrightarrow> try_candidate out = Inr None \<or> (\<exists>e. try_candidate out = Inl e)"
  by (auto simp: candidate_fails_def try_candidate_def json_def normalize_profile_result
           split: sum.splits option.splits)

lemma try_candidate_succeeds:
  assumes "\<not> candidate_fails out"
  shows "\<exists>res data u. out = Inr res \<and> ok res \<and> payload res = Some data
           \<and> normalize_profile data = Inr u \<and> u \<noteq> JNull \<and> try_candidate out = Inr (Some u)"
  using assms
  by (auto simp: candidate_fails_def try_candidate_def json_def normalize_profile_result
           split: sum.splits option.splits)

lemma fetchUserProfile_no_text:
  "to_string E jwt = Inl e \<Longrightarrow> fetchUserProfile E jwt cands w = (JNull, w)"
  by (induction cands) simp_all

lemma fetchUserProfile_all_fail:
  assumes "to_string E jwt = Inr t"
  shows "all_fail E t cands w \<Longrightarrow> fetchUserProfile E jwt cands w = (JNull, contact t cands w)"
proof (induction cands arbitrary: w)
  case Nil
  show ?case by simp
next
  case (Cons p ps)
  from Cons.prems have f: "candidate_fails (net E (events w) (profile_request t p))"
    and rest: "all_fail E t ps (emit (Fetch (profile_request t p)) w)"
    by (simp_all add: contact_one)
  from try_candidate_fails [OF f] Cons.IH [OF rest] show ?case
    by (auto simp: fetch_def contact_Cons assms)
qed

lemma fetchUserProfile_success_after:
  assumes "to_string E jwt = Inr t"
    and "\<not> candidate_fails (net E (events (contact t pre w)) (profile_request t c))"
  shows "all_fail E t pre w \<Longrightarrow>
     \<exists>res data u. net E (events (contact t pre w)) (profile_request t c) = Inr res
        \<and> ok res \<and> payload res = Some data \<and> normalize_profile data = Inr u \<and> u \<noteq> JNull
        \<and> fetchUserProfile E jwt (pre @ c # post) w = (u, contact t (pre @ [c]) w)"
  using assms(2)
proof (induction pre arbitrary: w)
  case Nil
  from try_candidate_succeeds [OF Nil.prems(2)] show ?case
    by (auto simp: fetch_def contact_one assms(1))
next
  case (Cons p ps)
  from Cons.prems have f: "candidate_fails (net E (events w) (profile_request t p))"
    and rest: "all_fail E t ps (emit (Fetch (profile_request t p)) w)"
    by (simp_all add: contact_one)
  have c: "\<not> candidate_fails (net E (events (contact t ps (emit (Fetch (profile_request t p)) w)))
             (profile_request t c))"
    using Cons.prems(2) by (simp add: contact_Cons)
  from Cons.IH [OF rest c] try_candidate_fails [OF f] show ?case
    by (auto simp: fetch_def contact_Cons assms(1))
qed

lemma fetchUserProfile_null_iff:
  assumes "to_string E jwt = Inr t"
  shows "fst (fetchUserProfile E jwt cands w) = JNull \<longleftrightarrow> all_fail E t cands w"
proof (induction cands arbitrary: w)
  case Nil
  show ?case by simp
next
  case (Cons p ps)
  show ?case
  proof (cases "candidate_fails (net E (events w) (profile_request t p))")
    case True
    from try_candidate_fails [OF True] Cons.IH [of "emit (Fetch (profile_request t p)) w"]
    show ?thesis using True by (auto simp: fetch_def contact_one assms)
  next
    case False
    from try_candidate_succeeds [OF False] show ?thesis
      using False by (auto simp: fetch_def assms)
  qed
qed

lemma clearError_fields [simp]:
  "events (clearError w) = events w" "storage (clearError w) = storage w"
  "location (clearError w) = location w"
  "error_box (clearError w) = (case error_box w of Some old \<Rightarrow> Some [] | None \<Rightarrow> None)"
  by (simp_all add: clearError_def split: option.splits)

lemma display_fields [simp]:
  "storage (display t w) = storage w" "location (display t w) = location w"
  "error_box (display t w) = (case error_box w of Some old \<Rightarrow> Some t | None \<Rightarrow> None)"
  "events (display t w) = (case error_box w of Some old \<Rightarrow> events w | None \<Rightarrow> events w @ [Alert t])"
  by (simp_all add: display_def split: option.splits)

lemma showError_text:
  "truthy m \<Longrightarrow> to_string E m = Inr t \<Longrightarrow> showError E m w = (Inr (), display t w)"
  by (simp add: showError_def)

lemma showError_no_text:
  "truthy m \<Longrightarrow> to_string E m = Inl e \<Longrightarrow> showError E m w = (Inl e, w)"
  by (simp add: showError_def)

lemma showError_literal: "s \<noteq> [] \<Longrightarrow> showError E (JStr s) w = (Inr (), display s w)"
  by (simp add: showError_def)

lemma on_exception_display: "on_exception E w = emit ConsoleError (display MSG_CONNECT w)"
  by (simp add: on_exception_def showError_def MSG_CONNECT_def)

lemma on_exception_fields [simp]:
  "storage (on_exception E w) = storage w" "location (on_exception E w) = location w"
  "error_box (on_exception E w) = (case error_box w of Some old \<Rightarrow> Some MSG_CONNECT | None \<Rightarrow> None)"
  "events (on_exception E w) =
     (case error_box w of
        Some old \<Rightarrow> events w @ [ConsoleError]
      | None \<Rightarrow> events w @ [Alert MSG_CONNECT, ConsoleError])"
  by (simp_all add: on_exception_display split: option.splits)

lemma submitted_fields [simp]:
  "events (submitted fd w) = events w @ [PreventDefault, Fetch (login_request fd)]"
  "storage (submitted fd w) = storage w" "location (submitted fd w) = location w"
  "error_box (submitted fd w) = (case error_box w of Some old \<Rightarrow> Some [] | None \<Rightarrow> None)"
  by (simp_all add: submitted_def)

lemma on_submit_cases:
  "on_submit E fd w =
     (case login_outcome E fd w of
        Inl e \<Rightarrow> on_exception E (submitted fd w)
      | Inr res \<Rightarrow>
          if \<not> ok res then caught E (showError E (failure_message res) (submitted fd w))
          else (case payload res of
                  None \<Rightarrow> on_exception E (submitted fd w)
                | Some data \<Rightarrow>
                    if \<not> truthy (pickToken data) then display MSG_NO_TOKEN (submitted fd w)
                    else caught E (after_token E (pickToken data) (submitted fd w))))"
  by (simp add: on_submit_def fetch_def login_outcome_def submitted_def json_def caught_def
        showError_def MSG_NO_TOKEN_def
           split: sum.splits option.splits)

lemma saveSession_token:
  "truthy t \<Longrightarrow> to_string E t = Inr tok \<Longrightarrow>
   events (saveSession E (Some t) None w) = events w @ persist_events E (storage w) tok None
   \<and> storage (saveSession E (Some t) None w) = persist_store E (storage w) tok None
   \<and> location (saveSession E (Some t) None w) = location w
   \<and> error_box (saveSession E (Some t) None w) = error_box w"
  by (simp add: saveSession_def save_jwt_def save_user_def setItem_def persist_events_def
        persist_store_def)

lemma saveSession_no_text:
  "truthy t \<Longrightarrow> to_string E t = Inl e \<Longrightarrow> saveSession E (Some t) user w = emit ConsoleWarn w"
  by (simp add: saveSession_def save_jwt_def)

lemma saveSession_both:
  "truthy t \<Longrightarrow> truthy u \<Longrightarrow> to_string E t = Inr tok \<Longrightarrow>
   events (saveSession E (Some t) (Some u) w)
     = events w @ persist_events E (storage w) tok (Some (JSON_stringify E u))
   \<and> storage (saveSession E (Some t) (Some u) w)
     = persist_store E (storage w) tok (Some (JSON_stringify E u))
   \<and> location (saveSession E (Some t) (Some u) w) = location w
   \<and> error_box (saveSession E (Some t) (Some u) w) = error_box w"
  by (cases "JSON_stringify E u")
     (simp_all add: saveSession_def save_jwt_def save_user_def setItem_def persist_events_def
        persist_store_def)

lemma fetchUserProfile_contacts:
  assumes "to_string E jwt = Inr t"
  shows "\<exists>n\<le>length cands. snd (fetchUserProfile E jwt cands w) = contact t (take n cands) w"
proof (induction cands arbitrary: w)
  case Nil
  show ?case by simp
next
  case (Cons p ps)
  let ?w = "emit (Fetch (profile_request t p)) w"
  from Cons.IH [of ?w] obtain n where n: "n \<le> length ps"
    "snd (fetchUserProfile E jwt ps ?w) = contact t (take n ps) ?w"
    by blast
  have 1: "contact t (take (Suc 0) (p # ps)) w = ?w"
    by (simp add: contact_one)
  have 2: "contact t (take (Suc n) (p # ps)) w = contact t (take n ps) ?w"
    by (simp add: contact_Cons)
  show ?case
  proof (cases "try_candidate (net E (events w) (profile_request t p))")
    case (Inl e)
    then have "snd (fetchUserProfile E jwt (p # ps) w) = contact t (take (Suc n) (p # ps)) w"
      using n(2) 2 by (simp add: fetch_def assms)
    moreover have "Suc n \<le> length (p # ps)" using n(1) by simp
    ultimately show ?thesis by blast
  next
    case (Inr r)
    show ?thesis
    proof (cases r)
      case None
      then have "snd (fetchUserProfile E jwt (p # ps) w) = contact t (take (Suc n) (p # ps)) w"
        using Inr n(2) 2 by (simp add: fetch_def assms)
      moreover have "Suc n \<le> length (p # ps)" using n(1) by simp
      ultimately show ?thesis by blast
    next
      case (Some u)
      then have "snd (fetchUserProfile E jwt (p # ps) w) = contact t (take (Suc 0) (p # ps)) w"
        using Inr 1 by (simp add: fetch_def assms)
      moreover have "Suc 0 \<le> length (p # ps)" by simp
      ultimately show ?thesis by blast
    qed
  qed
qed

lemma fetchUserProfile_result:
  "fst (fetchUserProfile E jwt cands w) = JNull \<or> (\<exists>ps. fst (fetchUserProfile E jwt cands w) = JObj ps)"
proof (induction cands arbitrary: w)
  case Nil
  show ?case by simp
next
  case (Cons p ps)
  show ?case
  proof (cases "to_string E jwt")
    case (Inl e)
    then show ?thesis by (simp add: fetchUserProfile_no_text)
  next
    case (Inr t)
    show ?thesis
      using Cons.IH [of "emit (Fetch (profile_request t p)) w"]
      by (auto simp: fetch_def try_candidate_def normalize_profile_result Inr
               split: sum.splits option.splits if_splits)
  qed
qed

lemma contact_fields [simp]:
  "events (contact t ps w) = events w @ map (\<lambda>p. Fetch (profile_request t p)) ps"
  "storage (contact t ps w) = storage w" "location (contact t ps w) = location w"
  "error_box (contact t ps w) = error_box w"
  by (simp_all add: contact_def)

lemma visit_fields [simp]:
  "events (visit url w) = events w @ [Navigate url]"
  "storage (visit url w) = storage w"
  "location (visit url w) = Some url"
  "error_box (visit url w) = error_box w"
  by (simp_all add: visit_def)

lemma after_token_no_text:
  assumes "truthy token" and "to_string E token = Inl e"
  shows "after_token E token w = (Inl e, emit ConsoleWarn w)"
  using assms
  by (simp add: after_token_def saveSession_no_text fetchUserProfile_no_text redirectWithParams_def)

lemma after_token_effects:
  assumes "truthy token" and "to_string E token = Inr tok"
  shows "\<exists>n\<le>length PROFILE_CANDIDATES. \<exists>w'.
     after_token E token w = (Inr (), w')
     \<and> events w' =
       events w @ persist_events E (storage w) tok None
       @ map (\<lambda>p. Fetch (profile_request tok p)) (take n PROFILE_CANDIDATES)
       @ (if fst (fetchUserProfile E token PROFILE_CANDIDATES (saveSession E (Some token) None w)) = JNull
          then []
          else persist_events E (storage (saveSession E (Some token) None w)) tok
                 (Some (JSON_stringify E (fst (fetchUserProfile E token PROFILE_CANDIDATES
                                          (saveSession E (Some token) None w))))))
       @ [Navigate (redirect_url tok (user_string (JSON_stringify E
            (if fst (fetchUserProfile E token PROFILE_CANDIDATES
                             (saveSession E (Some token) None w)) = JNull
                   then JObj []
                   else fst (fetchUserProfile E token PROFILE_CANDIDATES
                               (saveSession E (Some token) None w))))))]
     \<and> storage w' =
         (if fst (fetchUserProfile E token PROFILE_CANDIDATES (saveSession E (Some token) None w)) = JNull
          then persist_store E (storage w) tok None
          else persist_store E (persist_store E (storage w) tok None) tok
                 (Some (JSON_stringify E (fst (fetchUserProfile E token PROFILE_CANDIDATES
                                          (saveSession E (Some token) None w))))))
     \<and> location w' =
         Some (redirect_url tok (user_string (JSON_stringify E
            (if fst (fetchUserProfile E token PROFILE_CANDIDATES
                             (saveSession E (Some token) None w)) = JNull
                   then JObj []
                   else fst (fetchUserProfile E token PROFILE_CANDIDATES
                               (saveSession E (Some token) None w))))))
     \<and> error_box w' = error_box w"
proof -
  define w1 where "w1 = saveSession E (Some token) None w"
  define r where "r = fetchUserProfile E token PROFILE_CANDIDATES w1"
  define profile where "profile = fst r"
  from fetchUserProfile_contacts [OF assms(2), of PROFILE_CANDIDATES w1]
  obtain n where n: "n \<le> length PROFILE_CANDIDATES"
    and w2: "snd r = contact tok (take n PROFILE_CANDIDATES) w1"
    unfolding r_def by blast
  have r: "r = (profile, contact tok (take n PROFILE_CANDIDATES) w1)"
    using w2 by (simp add: profile_def prod_eq_iff)
  from fetchUserProfile_result [of E token PROFILE_CANDIDATES w1]
  have shape: "profile = JNull \<or> (\<exists>ps. profile = JObj ps)"
    by (simp add: profile_def r_def)
  have w1: "events w1 = events w @ persist_events E (storage w) tok None"
    "storage w1 = persist_store E (storage w) tok None"
    "location w1 = location w" "error_box w1 = error_box w"
    using saveSession_token [OF assms, of w] by (simp_all add: w1_def)
  define w3 where "w3 = (if truthy profile
         then saveSession E (Some token) (Some profile) (contact tok (take n PROFILE_CANDIDATES) w1)
         else contact tok (take n PROFILE_CANDIDATES) w1)"
  define url where "url = redirect_url tok (user_string (JSON_stringify E
       (coalesce_value (Some (if truthy profile then profile else JObj [])) (JObj []))))"
  have at: "after_token E token w = (Inr (), visit url w3)"
    using r assms(2)
    by (simp add: after_token_def w1_def [symmetric] r_def [symmetric] redirectWithParams_def
          w3_def url_def)
  show ?thesis
  proof (cases "profile = JNull")
    case True
    then show ?thesis
      using n at w1
      unfolding w1_def [symmetric] r_def [symmetric] profile_def [symmetric]
      by (intro exI [of _ n] exI [of _ "visit url w3"] conjI)
         (simp_all add: w3_def url_def coalesce_value_def)
  next
    case False
    with shape have t: "truthy profile" by auto
    from shape False have c: "coalesce_value (Some profile) (JObj []) = profile"
      by (auto simp: coalesce_value_def)
    show ?thesis
      using n at w1 False t c
        saveSession_both [OF assms(1) t assms(2), of "contact tok (take n PROFILE_CANDIDATES) w1"]
      unfolding w1_def [symmetric] r_def [symmetric] profile_def [symmetric]
      by (intro exI [of _ n] exI [of _ "visit url w3"] conjI)
         (simp_all add: w3_def url_def)
  qed
qed

lemmas page_simps = scripted_def browser_def login_page_def candidate_fails_def contact_def
  profile_request_def ok_def emit_def

lemma failure_message_truthy: "truthy (failure_message res)"
  by (auto simp: failure_message_def json_def or_value_def MSG_CREDENTIALS_def
           split: option.splits)

lemma opt_prop_get: "opt_prop d k = get_prop d k"
  by (simp add: opt_prop_def)

lemmas handler_simps = on_submit_cases login_outcome_def page_simps login_request_def
  ENDPOINT_LOGIN_def PROFILE_CANDIDATES_def json_def after_token_def fetch_def try_candidate_def
  saveSession_def save_jwt_def save_user_def setItem_def JSON_stringify_def submitted_def
  clearError_def redirectWithParams_def to_string_def caught_def showError_def on_exception_def
  display_def visit_def

lemma save_jwt_storage:
  "storage (snd (save_jwt E jwt w)) = storage w
   \<or> (\<exists>t tok. jwt = Some t \<and> truthy t \<and> to_string E t = Inr tok
         \<and> storage (snd (save_jwt E jwt w)) = (storage w)(''jwt'' \<mapsto> tok))"
  by (auto simp: save_jwt_def setItem_def split: option.splits sum.splits)

lemma save_user_storage:
  "storage (snd (save_user E user w)) = storage w
   \<or> (\<exists>u. user = Some u \<and> truthy u
         \<and> storage (snd (save_user E user w)) = (storage w)(''userdata'' \<mapsto> stringify u))"
  by (auto simp: save_user_def setItem_def JSON_stringify_def
           split: option.splits sum.splits jsval.splits list.splits if_splits)

lemma saveSession_storage:
  "storage (saveSession E jwt user w) =
     (case save_jwt E jwt w of
        (Inl e, w1) \<Rightarrow> storage w1
      | (Inr x, w1) \<Rightarrow> storage (snd (save_user E user w1)))"
  by (auto simp: saveSession_def split: prod.splits sum.splits)

lemma saveSession_writes:
  "\<exists>tr. events (saveSession E jwt user w) = events w @ tr
     \<and> (\<not> truthy_opt jwt \<longrightarrow> (\<forall>v. SetItem ''jwt'' v \<notin> set tr))
     \<and> (\<not> truthy_opt user \<longrightarrow> (\<forall>v. SetItem ''userdata'' v \<notin> set tr))"
proof -
  obtain r w1 where j: "save_jwt E jwt w = (r, w1)" by (cases "save_jwt E jwt w")
  obtain r' w2 where u: "save_user E user w1 = (r', w2)" by (cases "save_user E user w1")
  have 1: "\<exists>a. events w1 = events w @ a \<and> (\<forall>v. SetItem ''userdata'' v \<notin> set a)
              \<and> (\<not> truthy_opt jwt \<longrightarrow> a = [])"
    using j by (auto simp: save_jwt_def setItem_def split: option.splits if_splits sum.splits)
  have 2: "\<exists>b. events w2 = events w1 @ b \<and> (\<forall>v. SetItem ''jwt'' v \<notin> set b)
              \<and> (\<not> truthy_opt user \<longrightarrow> b = [])"
    using u by (auto simp: save_user_def setItem_def split: option.splits if_splits sum.splits)
  from 1 obtain a where a: "events w1 = events w @ a" "\<forall>v. SetItem ''userdata'' v \<notin> set a"
    "\<not> truthy_opt jwt \<longrightarrow> a = []" by blast
  from 2 obtain b where b: "events w2 = events w1 @ b" "\<forall>v. SetItem ''jwt'' v \<notin> set b"
    "\<not> truthy_opt user \<longrightarrow> b = []" by blast
  have "events (saveSession E jwt user w) = events w @ a @ [ConsoleWarn]
        \<or> events (saveSession E jwt user w) = events w @ a @ b
        \<or> events (saveSession E jwt user w) = events w @ a @ b @ [ConsoleWarn]"
    using a(1) b(1) by (cases r; cases r') (simp_all add: saveSession_def j u)
  then show ?thesis
    using a(2,3) b(2,3) by (elim disjE) (rule exI, rule conjI, assumption, simp)+
qed

section \<open>Facts about reading JSON text\<close>

lemma below_16_cases:
  "(d::nat) < 16 \<Longrightarrow> d = 0 \<or> d = 1 \<or> d = 2 \<or> d = 3 \<or> d = 4 \<or> d = 5 \<or> d = 6 \<or> d = 7
     \<or> d = 8 \<or> d = 9 \<or> d = 10 \<or> d = 11 \<or> d = 12 \<or> d = 13 \<or> d = 14 \<or> d = 15"
  by arith

lemma hex_val_lower: "d < 16 \<Longrightarrow> hex_val (hex_lower d) = Some d"
  by (drule below_16_cases) (auto simp: hex_val_def hex_lower_def)

lemma hex_val_upper: "d < 16 \<Longrightarrow> hex_val (hex_upper d) = Some d"
  by (drule below_16_cases) (auto simp: hex_val_def hex_upper_def)

lemma hex_pair_lower: "n < 256 \<Longrightarrow> hex_pair (hex_lower (n div 16)) (hex_lower (n mod 16)) = Some n"
  by (simp add: hex_pair_def hex_val_lower)

lemma hex_pair_upper: "n < 256 \<Longrightarrow> hex_pair (hex_upper (n div 16)) (hex_upper (n mod 16)) = Some n"
  by (simp add: hex_pair_def hex_val_upper)

lemma hex_pair_zero: "hex_pair (CHR ''0'') (CHR ''0'') = Some 0"
  by (simp add: hex_pair_def hex_val_def)

lemma read_chars_escape: "read_chars (json_escape c @ r) = push c (read_chars r)"
proof -
  have u: "hex_pair (hex_lower ((of_char c :: nat) div 16)) (hex_lower ((of_char c :: nat) mod 16))
             = Some (of_char c)"
    by (rule hex_pair_lower) simp
  show ?thesis
    by (simp add: json_escape_def hex_pair_zero u)
qed

lemma read_chars_quoted: "read_chars (concat (map json_escape s) @ CHR 0x22 # r) = Some (s, r)"
  by (induction s) (simp_all add: read_chars_escape push_def del: read_chars.simps(2), simp)

lemmas number_simps = js_number_text_def integer_layout_def decimal_layout_def
  exponent_layout_def plain_digits_def fraction_digits_def number_char_def is_digit_def
  digits_val_def significant_def

lemma number_text_ok: "js_number_text (number_text n)"
  using number_text [of n] by simp

lemma num_number_text [simp]: "num (number_text n) = n"
  by transfer simp

lemma number_text_num: "js_number_text t \<Longrightarrow> number_text (num t) = t"
  by (simp add: num.rep_eq)

lemma number_text_first:
  "\<exists>c cs. number_text n = c # cs \<and> (c = CHR ''-'' \<or> is_digit c)"
proof -
  let ?t = "number_text n"
  have t: "js_number_text ?t" by (rule number_text_ok)
  then obtain c cs where c: "?t = c # cs" by (cases ?t) (auto simp: js_number_text_def)
  have "c = CHR ''-'' \<or> is_digit c"
  proof (cases "c = CHR ''-''")
    case True
    then show ?thesis by simp
  next
    case False
    with t c have "integer_layout ?t \<or> decimal_layout ?t \<or> exponent_layout ?t"
      by (simp add: js_number_text_def Let_def)
    then show ?thesis
    proof (elim disjE)
      assume "integer_layout ?t"
      then show ?thesis by (simp add: c integer_layout_def plain_digits_def)
    next
      assume "decimal_layout ?t"
      then show ?thesis
        by (cases "c = CHR ''.''") (auto simp: c decimal_layout_def plain_digits_def Let_def)
    next
      assume "exponent_layout ?t"
      then show ?thesis
        by (cases "c = CHR ''e''") (auto simp: c exponent_layout_def Let_def)
    qed
  qed
  with c show ?thesis by blast
qed

lemma delimited_not_number: "delimited r \<Longrightarrow> r = [] \<or> \<not> number_char (hd r)"
  by (auto simp: delimited_def number_char_def is_digit_def split: list.splits)

lemma read_number_text:
  assumes "delimited r"
  shows "read_number (number_text n @ r) = Some (n, r)"
proof -
  have all: "\<forall>x\<in>set (number_text n). number_char x"
    using number_text_ok [of n] by (simp add: js_number_text_def list_all_iff)
  have r: "takeWhile number_char r = []" "dropWhile number_char r = r"
    using delimited_not_number [OF assms] by (cases r; auto)+
  have "takeWhile number_char (number_text n @ r) = number_text n"
    "dropWhile number_char (number_text n @ r) = r"
    using all r by (simp_all add: takeWhile_append2 dropWhile_append2)
  then show ?thesis by (simp add: read_number_def number_text_ok)
qed

lemma expect_prefix [simp]: "expect p (p @ r) = Some r"
  by (simp add: expect_def)

lemma reads_atoms: "reads JNull" "reads (JBool b)" "reads (JStr s)"
proof -
  show "reads JNull"
  proof (unfold reads_def, intro allI impI)
    fix n r assume "fuel JNull \<le> n"
    then obtain m where "n = Suc m" by (cases n) auto
    then show "read_value n (stringify JNull @ r) = Some (JNull, r)" by (simp add: expect_def)
  qed
  show "reads (JBool b)"
  proof (unfold reads_def, intro allI impI)
    fix n r assume "fuel (JBool b) \<le> n"
    then obtain m where "n = Suc m" by (cases n) auto
    then show "read_value n (stringify (JBool b) @ r) = Some (JBool b, r)" by (simp add: expect_def)
  qed
  show "reads (JStr s)"
  proof (unfold reads_def, intro allI impI)
    fix n r assume "fuel (JStr s) \<le> n"
    then obtain m where "n = Suc m" by (cases n) auto
    then show "read_value n (stringify (JStr s) @ r) = Some (JStr s, r)"
      by (simp add: quote_json_def read_chars_quoted)
  qed
qed

lemma reads_number: "reads (JNum i)"
proof (unfold reads_def, intro allI impI)
  fix n r assume "fuel (JNum i) \<le> n" and d: "delimited r"
  then obtain m where n: "n = Suc m" by (cases n) auto
  from number_text_first [of i] obtain c cs where c: "number_text i = c # cs"
    "c = CHR ''-'' \<or> is_digit c" by blast
  from c(2) have ne: "c \<noteq> CHR ''n''" "c \<noteq> CHR ''t''" "c \<noteq> CHR ''f''" "c \<noteq> CHR 0x22"
    "c \<noteq> CHR ''[''" "c \<noteq> CHR ''{''"
    by (auto simp: is_digit_def)
  have "read_value (Suc m) ((c # cs) @ r) = map_option (apfst JNum) (read_number ((c # cs) @ r))"
    using ne by simp
  then show "read_value n (stringify (JNum i) @ r) = Some (JNum i, r)"
    using read_number_text [OF d, of i] by (simp add: n c(1))
qed

lemma stringify_first: "\<exists>c cs. stringify v = c # cs \<and> c \<noteq> CHR '']'' \<and> c \<noteq> CHR ''}''"
proof (cases v)
  case (JNum i)
  from number_text_first [of i] show ?thesis
    by (auto simp: JNum is_digit_def)
qed (auto simp: quote_json_def)

lemma join_with_Cons2: "ys \<noteq> [] \<Longrightarrow> join_with sep (y # ys) = y @ sep @ join_with sep ys"
  by (cases ys) simp_all

lemma read_elements_joined:
  assumes "\<And>x. x \<in> set xs \<Longrightarrow> reads x" and "delimited r"
  shows "xs \<noteq> [] \<Longrightarrow> sum_list (map (\<lambda>x. Suc (fuel x)) xs) \<le> n \<Longrightarrow>
     read_elements n (join_with '','' (map stringify xs) @ CHR '']'' # r) = Some (xs, r)"
  using assms(1)
proof (induction xs arbitrary: n)
  case Nil
  then show ?case by simp
next
  case (Cons x xs)
  from Cons.prems(2) obtain m where n: "n = Suc m" and m: "fuel x \<le> m"
    and rest: "sum_list (map (\<lambda>x. Suc (fuel x)) xs) \<le> m"
    by (cases n) auto
  have x: "reads x" using Cons.prems(3) by simp
  show ?case
  proof (cases "xs = []")
    case True
    have "delimited (CHR '']'' # r)" by (simp add: delimited_def)
    with x m have "read_value m (stringify x @ CHR '']'' # r) = Some (x, CHR '']'' # r)"
      unfolding reads_def by blast
    then show ?thesis by (simp add: n True)
  next
    case False
    let ?tail = "join_with '','' (map stringify xs) @ CHR '']'' # r"
    have "delimited (CHR '','' # ?tail)" by (simp add: delimited_def)
    with x m have "read_value m (stringify x @ CHR '','' # ?tail) = Some (x, CHR '','' # ?tail)"
      unfolding reads_def by blast
    moreover have "read_elements m ?tail = Some (xs, r)"
      using Cons.IH [OF False rest] Cons.prems(3) by simp
    ultimately show ?thesis
      using False by (simp add: n join_with_Cons2 push_def)
  qed
qed

lemma read_members_joined:
  assumes "\<And>k v. (k, v) \<in> set ps \<Longrightarrow> reads v" and "delimited r"
  shows "ps \<noteq> [] \<Longrightarrow> sum_list (map (\<lambda>(k, v). Suc (fuel v)) ps) \<le> n \<Longrightarrow>
     read_members n (join_with '','' (map member_text ps) @ CHR ''}'' # r) = Some (ps, r)"
  using assms(1)
proof (induction ps arbitrary: n)
  case Nil
  then show ?case by simp
next
  case (Cons p ps)
  obtain k v where p: "p = (k, v)" by (cases p)
  from Cons.prems(2) obtain m where n: "n = Suc m" and m: "fuel v \<le> m"
    and rest: "sum_list (map (\<lambda>(k, v). Suc (fuel v)) ps) \<le> m"
    by (cases n) (auto simp: p)
  have v: "reads v" using Cons.prems(3) [of k v] by (simp add: p)
  have key: "read_chars (concat (map json_escape k) @ CHR 0x22 # CHR '':'' # t)
               = Some (k, CHR '':'' # t)" for t
    by (rule read_chars_quoted)
  have mt: "member_text (k, v) = CHR 0x22 # concat (map json_escape k) @ CHR 0x22 # CHR '':'' # stringify v"
    by (simp add: member_text_def quote_json_def)
  show ?case
  proof (cases "ps = []")
    case True
    have "delimited (CHR ''}'' # r)" by (simp add: delimited_def)
    with v m have "read_value m (stringify v @ CHR ''}'' # r) = Some (v, CHR ''}'' # r)"
      unfolding reads_def by blast
    then show ?thesis
      using key by (simp add: n True p mt expect_def)
  next
    case False
    let ?tail = "join_with '','' (map member_text ps) @ CHR ''}'' # r"
    have "delimited (CHR '','' # ?tail)" by (simp add: delimited_def)
    with v m have "read_value m (stringify v @ CHR '','' # ?tail) = Some (v, CHR '','' # ?tail)"
      unfolding reads_def by blast
    moreover have "read_members m ?tail = Some (ps, r)"
    proof (rule Cons.IH [OF False rest])
      fix k' v' assume "(k', v') \<in> set ps"
      then show "reads v'" using Cons.prems(3) [of k' v'] by simp
    qed
    ultimately show ?thesis
      using False key
      by (simp add: n join_with_Cons2 push_def p mt expect_def)
  qed
qed

lemma stringify_array: "stringify (JArr xs) = CHR ''['' # join_with '','' (map stringify xs) @ '']''"
  by simp

lemma stringify_object:
  "stringify (JObj ps) = CHR ''{'' # join_with '','' (map member_text ps) @ ''}''"
proof -
  have "(\<lambda>(k, v). quote_json k @ '':'' @ stringify v) = member_text"
    by (auto simp: member_text_def fun_eq_iff)
  then have "stringify (JObj ps) = ''{'' @ join_with '','' (map member_text ps) @ ''}''"
    by (simp only: stringify.simps)
  also have "\<dots> = CHR ''{'' # join_with '','' (map member_text ps) @ ''}''"
    by simp
  finally show ?thesis .
qed

lemma join_first:
  assumes "ys \<noteq> []" and "hd ys \<noteq> []"
  shows "\<exists>c cs. join_with sep ys @ r = c # cs \<and> c = hd (hd ys)"
proof -
  from assms obtain y ys' where ys: "ys = y # ys'" by (cases ys) auto
  from assms ys obtain c cs where y: "y = c # cs" by (cases y) auto
  show ?thesis by (cases ys') (simp_all add: ys y)
qed

lemma reads_all: "reads v"
proof (induction v)
  case JNull
  show ?case by (rule reads_atoms)
next
  case (JBool b)
  show ?case by (rule reads_atoms)
next
  case (JNum i)
  show ?case by (rule reads_number)
next
  case (JStr s)
  show ?case by (rule reads_atoms)
next
  case (JArr xs)
  show ?case
  proof (unfold reads_def, intro allI impI)
    fix n r assume f: "fuel (JArr xs) \<le> n" and d: "delimited r"
    then obtain m where n: "n = Suc m" and m: "sum_list (map (\<lambda>x. Suc (fuel x)) xs) \<le> m"
      by (cases n) auto
    show "read_value n (stringify (JArr xs) @ r) = Some (JArr xs, r)"
    proof (cases "xs = []")
      case True
      then show ?thesis by (simp add: n expect_def)
    next
      case False
      let ?t = "join_with '','' (map stringify xs) @ CHR '']'' # r"
      from stringify_first [of "hd xs"] False
      have "map stringify xs \<noteq> []" "hd (map stringify xs) \<noteq> []"
        "hd (hd (map stringify xs)) \<noteq> CHR '']''"
        by (auto simp: hd_map)
      with join_first [of "map stringify xs" "'',''" "CHR '']'' # r"]
      obtain c cs where c: "?t = c # cs" "c \<noteq> CHR '']''" by auto
      have e: "expect '']'' ?t = None"
        using c by (simp add: expect_def)
      have "read_elements m ?t = Some (xs, r)"
        using read_elements_joined [OF _ d False m] JArr.IH by blast
      then show ?thesis
        using e by (simp add: n)
    qed
  qed
next
  case (JObj ps)
  have ih: "reads v" if "(k, v) \<in> set ps" for k v
    using JObj.IH [of "(k, v)" v] that by simp
  show ?case
  proof (unfold reads_def, intro allI impI)
    fix n r assume f: "fuel (JObj ps) \<le> n" and d: "delimited r"
    then obtain m where n: "n = Suc m" and m: "sum_list (map (\<lambda>(k, v). Suc (fuel v)) ps) \<le> m"
      by (cases n) auto
    show "read_value n (stringify (JObj ps) @ r) = Some (JObj ps, r)"
    proof (cases "ps = []")
      case True
      then show ?thesis by (simp add: n expect_def)
    next
      case False
      let ?t = "join_with '','' (map member_text ps) @ CHR ''}'' # r"
      have "map member_text ps \<noteq> []" "hd (map member_text ps) \<noteq> []"
        "hd (hd (map member_text ps)) \<noteq> CHR ''}''"
        using False by (auto simp: hd_map member_text_def quote_json_def split: prod.splits)
      with join_first [of "map member_text ps" "'',''" "CHR ''}'' # r"]
      obtain c cs where c: "?t = c # cs" "c \<noteq> CHR ''}''" by auto
      have e: "expect ''}'' ?t = None"
        using c by (simp add: expect_def)
      have "read_members m ?t = Some (ps, r)"
        using read_members_joined [OF _ d False m] ih by blast
      then show ?thesis
        using e by (simp add: n stringify_object del: stringify.simps)
    qed
  qed
qed

lemma length_join_with:
  "sum_list (map (\<lambda>y. Suc (length y)) ys) \<le> Suc (length (join_with sep ys) + (length ys - 1) * (1 - length sep))"
  by (induction sep ys rule: join_with.induct) auto

lemma length_join_comma:
  "sum_list (map (\<lambda>y. Suc (length y)) ys) \<le> Suc (length (join_with '','' ys))"
  using length_join_with [of ys "'',''"] by simp

lemma sum_list_Suc_mono:
  "(\<And>x. x \<in> set xs \<Longrightarrow> f x \<le> g x) \<Longrightarrow>
   sum_list (map (\<lambda>x. Suc (f x)) xs) \<le> sum_list (map (\<lambda>x. Suc (g x)) xs)"
  by (induction xs) (auto simp: add_mono)

lemma fuel_le_length: "fuel v \<le> length (stringify v)"
proof (induction v)
  case (JNum i)
  from number_text_first [of i] show ?case by auto
next
  case (JArr xs)
  have "sum_list (map (\<lambda>x. Suc (fuel x)) xs) \<le> sum_list (map (\<lambda>x. Suc (length (stringify x))) xs)"
    by (rule sum_list_Suc_mono) (rule JArr.IH)
  also have "\<dots> = sum_list (map (\<lambda>y. Suc (length y)) (map stringify xs))"
    by (simp add: comp_def)
  also have "\<dots> \<le> Suc (length (join_with '','' (map stringify xs)))"
    by (rule length_join_comma)
  finally show ?case by (simp add: stringify_array del: stringify.simps)
next
  case (JObj ps)
  have "sum_list (map (\<lambda>p. Suc (fuel (snd p))) ps)
          \<le> sum_list (map (\<lambda>p. Suc (length (member_text p))) ps)"
  proof (rule sum_list_Suc_mono)
    fix p assume p: "p \<in> set ps"
    obtain k v where kv: "p = (k, v)" by (cases p)
    from JObj.IH [of p v] p have "fuel v \<le> length (stringify v)" by (simp add: kv)
    then show "fuel (snd p) \<le> length (member_text p)" by (simp add: kv member_text_def)
  qed
  also have "\<dots> = sum_list (map (\<lambda>y. Suc (length y)) (map member_text ps))"
    by (simp add: comp_def)
  also have "\<dots> \<le> Suc (length (join_with '','' (map member_text ps)))"
    by (rule length_join_comma)
  finally have "sum_list (map (\<lambda>p. Suc (fuel (snd p))) ps)
                  \<le> Suc (length (join_with '','' (map member_text ps)))" .
  then show ?case by (simp add: stringify_object case_prod_unfold del: stringify.simps)
qed (simp_all add: quote_json_def)

lemma json_read_stringify: "json_read (stringify v) = Some v"
proof -
  have "fuel v \<le> Suc (length (stringify v))"
    using fuel_le_length [of v] by simp
  moreover have "delimited []" by (simp add: delimited_def)
  ultimately have "read_value (Suc (length (stringify v))) (stringify v @ []) = Some (v, [])"
    using reads_all [of v] unfolding reads_def by blast
  then show ?thesis by (simp add: json_read_def)
qed

section \<open>Facts about query strings\<close>

lemma utf8_bytes_cases:
  "(\<exists>n<128. utf8_bytes c = [n] \<and> char_of n = c)
   \<or> (\<exists>a b. utf8_bytes c = [a, b] \<and> 194 \<le> a \<and> a < 196 \<and> 128 \<le> b \<and> b < 192
          \<and> char_of ((a - 192) * 64 + (b - 128)) = c)"
proof (cases "(of_char c :: nat) < 128")
  case True
  then show ?thesis by (auto simp: utf8_bytes_def)
next
  case False
  let ?n = "of_char c :: nat"
  have n: "128 \<le> ?n" "?n < 256" using False by simp_all
  then have "194 \<le> 192 + ?n div 64" "192 + ?n div 64 < 196" by arith+
  moreover have "128 + ?n mod 64 < 192" by simp
  moreover have "(192 + ?n div 64 - 192) * 64 + (128 + ?n mod 64 - 128) = ?n" by simp
  ultimately show ?thesis
    using False by (auto simp: utf8_bytes_def Let_def)
qed

lemma char_of_eq: "(b::nat) < 256 \<Longrightarrow> (char_of b = c) = (b = of_char c)"
proof
  assume "b < 256" "char_of b = c"
  then have "(of_char c :: nat) = b mod 256" by (metis of_char_of)
  with \<open>b < 256\<close> show "b = of_char c" by simp
next
  assume "b = of_char c"
  then show "char_of b = c" by simp
qed

lemma char_of_space: "char_of (32::nat) = CHR '' ''"
  by (simp add: char_of_eq)

lemma form_plain_char:
  "form_plain b \<Longrightarrow> char_of b \<noteq> CHR ''+'' \<and> char_of b \<noteq> CHR ''%'' \<and> b < 128"
  by (auto simp: form_plain_def char_of_eq)

lemma form_decode_byte_low:
  assumes "n < 128"
  shows "form_decode (form_encode_byte n @ r) = map_option ((#) (char_of n)) (form_decode r)"
proof (cases "form_plain n")
  case True
  with form_plain_char [OF True] show ?thesis
    by (simp add: form_encode_byte_def)
next
  case False
  show ?thesis
  proof (cases "n = 32")
    case True
    then show ?thesis by (simp add: form_encode_byte_def form_plain_def char_of_space)
  next
    case n32: False
    have "hex_pair (hex_upper (n div 16)) (hex_upper (n mod 16)) = Some n"
      using assms by (intro hex_pair_upper) simp
    then show ?thesis
      using False n32 assms by (simp add: form_encode_byte_def)
  qed
qed

lemma form_encode_byte_high:
  "128 \<le> b \<Longrightarrow> form_encode_byte b = [CHR ''%'', hex_upper (b div 16), hex_upper (b mod 16)]"
  by (auto simp: form_encode_byte_def form_plain_def)

lemma form_decode_char:
  "form_decode (concat (map form_encode_byte (utf8_bytes c)) @ r)
     = map_option ((#) c) (form_decode r)"
proof -
  from utf8_bytes_cases [of c] show ?thesis
  proof (elim disjE exE conjE)
    fix n assume "n < 128" "utf8_bytes c = [n]" "char_of n = c"
    then show ?thesis using form_decode_byte_low [of n r] by simp
  next
    fix a b assume ab: "utf8_bytes c = [a, b]" "194 \<le> a" "a < 196" "128 \<le> b" "b < 192"
      "char_of ((a - 192) * 64 + (b - 128)) = c"
    have ha: "hex_pair (hex_upper (a div 16)) (hex_upper (a mod 16)) = Some a"
      using ab by (intro hex_pair_upper) simp
    have hb: "hex_pair (hex_upper (b div 16)) (hex_upper (b mod 16)) = Some b"
      using ab by (intro hex_pair_upper) simp
    have "form_encode_byte a = [CHR ''%'', hex_upper (a div 16), hex_upper (a mod 16)]"
      "form_encode_byte b = [CHR ''%'', hex_upper (b div 16), hex_upper (b mod 16)]"
      using ab by (simp_all add: form_encode_byte_high)
    then show ?thesis
      using ab ha hb by simp
  qed
qed

lemma form_encode_Cons:
  "form_encode (c # s) = concat (map form_encode_byte (utf8_bytes c)) @ form_encode s"
  by (simp add: form_encode_def)

lemma form_decode_encode: "form_decode (form_encode s) = Some s"
proof (induction s)
  case Nil
  show ?case by (simp add: form_encode_def)
next
  case (Cons c s)
  then show ?case by (simp only: form_encode_Cons form_decode_char) simp
qed

lemma hex_upper_safe: "d < 16 \<Longrightarrow> query_safe (hex_upper d)"
  by (auto simp: hex_upper_def query_safe_def char_of_eq)

lemma form_encode_byte_safe:
  assumes "b < 256"
  shows "list_all query_safe (form_encode_byte b)"
proof -
  have "b div 16 < 16" "b mod 16 < 16" using assms by simp_all
  then have "query_safe (hex_upper (b div 16))" "query_safe (hex_upper (b mod 16))"
    by (simp_all add: hex_upper_safe)
  moreover have "form_plain b \<Longrightarrow> query_safe (char_of b)"
    using assms by (auto simp: form_plain_def query_safe_def char_of_eq)
  moreover have "query_safe (CHR ''+'')" "query_safe (CHR ''%'')"
    by (simp_all add: query_safe_def)
  ultimately show ?thesis by (simp add: form_encode_byte_def)
qed

lemma utf8_bytes_range: "b \<in> set (utf8_bytes c) \<Longrightarrow> b < 256"
  using utf8_bytes_cases [of c] by auto

lemma form_encode_safe: "list_all query_safe (form_encode s)"
  by (auto simp: form_encode_def list_all_iff dest!: utf8_bytes_range form_encode_byte_safe)

lemma split_on_absent: "c \<notin> set x \<Longrightarrow> split_on c x = [x]"
  by (induction x) auto

lemma split_on_not_Nil: "split_on c x \<noteq> []"
  by (induction x) (auto split: list.splits)

lemma split_on_first: "c \<notin> set x \<Longrightarrow> split_on c (x @ c # r) = x # split_on c r"
  by (induction x) (auto split: list.splits)

lemma split_on_join:
  "xs \<noteq> [] \<Longrightarrow> (\<And>x. x \<in> set xs \<Longrightarrow> c \<notin> set x) \<Longrightarrow> split_on c (join_with [c] xs) = xs"
proof (induction xs)
  case Nil
  then show ?case by simp
next
  case (Cons x xs)
  show ?case
  proof (cases "xs = []")
    case True
    with Cons.prems show ?thesis by (simp add: split_on_absent)
  next
    case False
    have "join_with [c] (x # xs) = x @ c # join_with [c] xs"
      using False by (simp add: join_with_Cons2)
    moreover have "c \<notin> set x" using Cons.prems(2) by simp
    moreover have "split_on c (join_with [c] xs) = xs"
      using Cons.IH [OF False] Cons.prems(2) by simp
    ultimately show ?thesis by (simp add: split_on_first)
  qed
qed

lemma form_pair_safe:
  "CHR ''&'' \<notin> set (form_pair p)" "CHR ''#'' \<notin> set (form_pair p)" "form_pair p \<noteq> []"
  using form_encode_safe [of "fst p"] form_encode_safe [of "snd p"]
  by (auto simp: form_pair_def list_all_iff query_safe_def)

lemma parse_pair_form_pair: "parse_pair (form_pair (k, v)) = Some (k, v)"
proof -
  have k: "\<forall>x\<in>set (form_encode k). x \<noteq> CHR ''=''"
    using form_encode_safe [of k] by (auto simp: list_all_iff query_safe_def)
  have 1: "takeWhile (\<lambda>c. c \<noteq> CHR ''='') (form_encode k @ CHR ''='' # form_encode v) = form_encode k"
    using k by (simp add: takeWhile_append2)
  have 2: "dropWhile (\<lambda>c. c \<noteq> CHR ''='') (form_encode k @ CHR ''='' # form_encode v)
             = CHR ''='' # form_encode v"
    using k by (simp add: dropWhile_append2)
  show ?thesis
    by (simp add: parse_pair_def form_pair_def 1 2 form_decode_encode)
qed

lemma those_parse_pairs: "those (map parse_pair (map form_pair ps)) = Some ps"
  by (induction ps) (auto simp: parse_pair_form_pair)

lemma parse_query_params: "parse_query (url_search_params ps) = Some ps"
proof (cases "ps = []")
  case True
  then show ?thesis by (simp add: parse_query_def url_search_params_def)
next
  case False
  have "split_on (CHR ''&'') (join_with ''&'' (map form_pair ps)) = map form_pair ps"
    using False form_pair_safe(1) by (intro split_on_join) auto
  moreover have "filter (\<lambda>s. s \<noteq> []) (map form_pair ps) = map form_pair ps"
    using form_pair_safe(3) by (simp add: filter_id_conv)
  ultimately show ?thesis
    by (simp add: parse_query_def url_search_params_def those_parse_pairs del: map_map)
qed

lemma join_with_chars: "c \<in> set (join_with sep xs) \<Longrightarrow> c \<in> set sep \<or> (\<exists>x\<in>set xs. c \<in> set x)"
  by (induction sep xs rule: join_with.induct) auto

lemma url_search_params_no_hash: "CHR ''#'' \<notin> set (url_search_params ps)"
proof
  assume "CHR ''#'' \<in> set (url_search_params ps)"
  then have "CHR ''#'' \<in> set ''&'' \<or> (\<exists>x\<in>set (map form_pair ps). CHR ''#'' \<in> set x)"
    unfolding url_search_params_def by (rule join_with_chars)
  then obtain p where "CHR ''#'' \<in> set (form_pair p)" by auto
  with form_pair_safe(2) [of p] show False by simp
qed

lemma url_query_redirect [simp]: "url_query (redirect_url jwt user) = url_search_params (redirect_params jwt user)"
proof -
  have "\<forall>x\<in>set (url_search_params (redirect_params jwt user)). x \<noteq> CHR ''#''"
    using url_search_params_no_hash by metis
  then show ?thesis
    by (simp add: url_query_def redirect_url_def FRONT_REDIRECT_def)
qed

lemmas eval_simps = array_index_def is_digit_def digits_val_def set_prop_def normalize_profile_def
  read_prop_def spread_def canonical_fields_def coalesce_def coalesce_value_def
  pickToken_def opt_prop_def or_else_def or_value_def


section \<open>Token extraction: priority and truthiness\<close>

text \<open>
  Claim C2 says that \<^verbatim>\<open>pickToken\<close> returns the value of \<^verbatim>\<open>access_token\<close> whenever that
  field is present, whatever its value. The operator \<^verbatim>\<open>||\<close> skips a falsy value: with
  \<^verbatim>\<open>{access_token: "", jwt: "J"}\<close> the result is \<^verbatim>\<open>"J"\<close>, not the empty string.
\<close>

theorem pickToken_falsy_primary:
  "get_prop (JObj [(''access_token'', JStr []), (''jwt'', JStr ''J'')]) ''access_token''
     = Some (JStr [])
   \<and> pickToken (JObj [(''access_token'', JStr []), (''jwt'', JStr ''J'')]) = JStr ''J''"
  by (simp add: eval_simps)

text \<open>
  Claim C2, amended: when \<^verbatim>\<open>access_token\<close> is present with a truthy value (a non-empty
  string, a non-zero number, \<^verbatim>\<open>true\<close>, an array or an object), \<^verbatim>\<open>pickToken\<close> returns
  exactly that value, whatever the other fields are.
\<close>

theorem pickToken_primary:
  assumes "get_prop data ''access_token'' = Some v" and "truthy v"
  shows "pickToken data = v"
proof -
  from assms(1) have "data \<noteq> JNull" by auto
  with assms show ?thesis
    by (simp add: pickToken_def opt_prop_def or_else_def or_value_def)
qed

theorem pickToken_primary_witness:
  "get_prop (JObj [(''jwt'', JStr ''J''), (''access_token'', JStr ''T1''), (''token'', JNum (num ''5''))])
      ''access_token'' = Some (JStr ''T1'')
   \<and> truthy (JStr ''T1'')
   \<and> pickToken (JObj [(''jwt'', JStr ''J''), (''access_token'', JStr ''T1''), (''token'', JNum (num ''5''))])
      = JStr ''T1''"
proof -
  have 1: "get_prop (JObj [(''jwt'', JStr ''J''), (''access_token'', JStr ''T1''), (''token'', JNum (num ''5''))])
      ''access_token'' = Some (JStr ''T1'')" by simp
  have 2: "truthy (JStr ''T1'')" by simp
  from pickToken_primary [OF 1 2] 1 2 show ?thesis by simp
qed

section \<open>Profile normalization\<close>

text \<open>
  A property of the raw object keeps its value in the normalized object, whatever its
  name: the spread is the last entry of the object literal.
\<close>

lemma normalize_raw_value_kept:
  assumes "distinct (map fst ps)" and "k \<in> set (map fst ps)"
  shows "\<exists>u. normalize_profile (JObj ps) = Inr u \<and> get_prop u k = get_prop (JObj ps) k"
proof -
  let ?d = "JObj ps"
  let ?qs = "spread (canonical_fields ?d) ?d"
  have m: "map_of ?qs = map_of (canonical_fields ?d) ++ map_of ps"
    using map_of_spread [of ?d] assms(1) by simp
  from assms(2) have "map_of ps k \<noteq> None" by (simp add: map_of_eq_None_iff)
  then have "map_of ?qs k = map_of ps k" by (auto simp: m map_add_def)
  then show ?thesis by (simp add: normalize_profile_object)
qed

text \<open>
  Claim C1 says that a canonical field computed from the aliases overrides a raw field of
  the same name. In the object literal the spread \<^verbatim>\<open>...data\<close> comes after the three
  computed fields, so the raw field wins: for \<^verbatim>\<open>{user_id: null, id: 7}\<close> the computed
  \<^verbatim>\<open>user_id\<close> is \<^verbatim>\<open>7\<close> and the object returned has \<^verbatim>\<open>user_id: null\<close>.
\<close>

theorem normalize_raw_null_wins:
  "normalize_profile (JObj [(''user_id'', JNull), (''id'', JNum (num ''7''))])
     = Inr (JObj [(''user_id'', JNull), (''username'', JNull), (''email'', JNull), (''id'', JNum (num ''7''))])
   \<and> map_of (canonical_fields (JObj [(''user_id'', JNull), (''id'', JNum (num ''7''))])) ''user_id''
     = Some (JNum (num ''7''))"
  by (simp add: eval_simps)

text \<open>
  Claim C3: normalization is idempotent. For every raw profile object, normalizing
  returns an object, and normalizing that object returns it unchanged: the same
  properties with the same values in the same order.
\<close>

theorem normalize_idempotent:
  "\<exists>u. normalize_profile (JObj ps) = Inr u \<and> normalize_profile u = Inr u"
proof -
  have "normalize_profile (JObj ps) = Inr (JObj (spread (canonical_fields (JObj ps)) (JObj ps)))"
    by (simp add: normalize_profile_object)
  then show ?thesis using normalize_profile_fixpoint by blast
qed

theorem normalize_idempotent_witness:
  "\<exists>u. normalize_profile (JObj [(''id'', JNum (num ''7'')), (''name'', JStr ''Bob'')]) = Inr u
       \<and> normalize_profile u = Inr u"
  by (rule normalize_idempotent)

text \<open>
  Claim C8: for every raw profile object (its property names are distinct, as in any
  JavaScript object), the normalized object has the three canonical keys, with
  \<^verbatim>\<open>null\<close> where no alias holds a value; every key of the raw object is a key of the
  result; and a raw key other than the three canonical names keeps its raw value.
\<close>

theorem normalize_keeps_fields:
  assumes "distinct (map fst ps)"
  shows "\<exists>u. normalize_profile (JObj ps) = Inr u
           \<and> get_prop u ''user_id'' \<noteq> None
           \<and> get_prop u ''username'' \<noteq> None
           \<and> get_prop u ''email'' \<noteq> None
           \<and> (nullish (get_prop (JObj ps) ''user_id'') \<and> nullish (get_prop (JObj ps) ''id'')
                \<and> nullish (get_prop (JObj ps) ''userId'')
                \<longrightarrow> get_prop u ''user_id'' = Some JNull)
           \<and> (nullish (get_prop (JObj ps) ''username'') \<and> nullish (get_prop (JObj ps) ''user'')
                \<and> nullish (get_prop (JObj ps) ''name'')
                \<longrightarrow> get_prop u ''username'' = Some JNull)
           \<and> (nullish (get_prop (JObj ps) ''email'') \<longrightarrow> get_prop u ''email'' = Some JNull)
           \<and> (\<forall>k \<in> set (map fst ps).
                  get_prop u k \<noteq> None
                  \<and> (k \<notin> {''user_id'', ''username'', ''email''}
                       \<longrightarrow> get_prop u k = get_prop (JObj ps) k))"
proof -
  let ?d = "JObj ps"
  let ?qs = "spread (canonical_fields ?d) ?d"
  have n: "normalize_profile ?d = Inr (JObj ?qs)"
    by (simp add: normalize_profile_object)
  have m: "map_of ?qs = map_of (canonical_fields ?d) ++ map_of ps"
    using map_of_spread [of ?d] assms by simp
  have raw: "map_of ?qs k = map_of ps k" if "k \<in> set (map fst ps)" for k
  proof -
    from that obtain v where "map_of ps k = Some v"
      by (metis map_of_eq_None_iff not_Some_eq set_map)
    then show ?thesis by (simp add: m map_add_def)
  qed
  have canon: "map_of ?qs k = (case map_of ps k of Some v \<Rightarrow> Some v | None \<Rightarrow> map_of (canonical_fields ?d) k)" for k
    by (simp add: m map_add_def)
  have cu: "map_of (canonical_fields ?d) ''user_id'' =
      Some (coalesce_value (coalesce (coalesce (map_of ps ''user_id'') (map_of ps ''id''))
              (map_of ps ''userId'')) JNull)"
    by (simp add: canonical_fields_def)
  have cn: "map_of (canonical_fields ?d) ''username'' =
      Some (coalesce_value (coalesce (coalesce (map_of ps ''username'') (map_of ps ''user''))
              (map_of ps ''name'')) JNull)"
    by (simp add: canonical_fields_def)
  have ce: "map_of (canonical_fields ?d) ''email'' = Some (coalesce_value (map_of ps ''email'') JNull)"
    by (simp add: canonical_fields_def)
  have 1: "get_prop (JObj ?qs) ''user_id'' \<noteq> None"
    using canon [of "''user_id''"] cu by (simp split: option.splits)
  have 2: "get_prop (JObj ?qs) ''username'' \<noteq> None"
    using canon [of "''username''"] cn by (simp split: option.splits)
  have 3: "get_prop (JObj ?qs) ''email'' \<noteq> None"
    using canon [of "''email''"] ce by (simp split: option.splits)
  have nullish_cases: "nullish x \<longleftrightarrow> x = None \<or> x = Some JNull" for x
    by (cases x rule: nullish.cases) simp_all
  have 4: "nullish (get_prop ?d ''user_id'') \<and> nullish (get_prop ?d ''id'')
                \<and> nullish (get_prop ?d ''userId'')
                \<longrightarrow> get_prop (JObj ?qs) ''user_id'' = Some JNull"
    using canon [of "''user_id''"] cu
    by (auto simp: nullish_cases coalesce_def coalesce_value_def)
  have 5: "nullish (get_prop ?d ''username'') \<and> nullish (get_prop ?d ''user'')
                \<and> nullish (get_prop ?d ''name'')
                \<longrightarrow> get_prop (JObj ?qs) ''username'' = Some JNull"
    using canon [of "''username''"] cn
    by (auto simp: nullish_cases coalesce_def coalesce_value_def)
  have 6: "nullish (get_prop ?d ''email'') \<longrightarrow> get_prop (JObj ?qs) ''email'' = Some JNull"
    using canon [of "''email''"] ce
    by (auto simp: nullish_cases coalesce_def coalesce_value_def)
  have 7: "\<forall>k \<in> set (map fst ps).
                  get_prop (JObj ?qs) k \<noteq> None
                  \<and> (k \<notin> {''user_id'', ''username'', ''email''}
                       \<longrightarrow> get_prop (JObj ?qs) k = get_prop ?d k)"
  proof
    fix k assume k: "k \<in> set (map fst ps)"
    then have "map_of ps k \<noteq> None" by (simp add: map_of_eq_None_iff)
    with raw [OF k] show "get_prop (JObj ?qs) k \<noteq> None
                  \<and> (k \<notin> {''user_id'', ''username'', ''email''}
                       \<longrightarrow> get_prop (JObj ?qs) k = get_prop ?d k)"
      by simp
  qed
  from n 1 2 3 4 5 6 7 show ?thesis by blast
qed

theorem normalize_keeps_fields_witness:
  "distinct (map fst [(''id'', JNum (num ''7'')), (''name'', JStr ''Bob'')])
   \<and> (\<exists>u. normalize_profile (JObj [(''id'', JNum (num ''7'')), (''name'', JStr ''Bob'')]) = Inr u
          \<and> get_prop u ''email'' = Some JNull
          \<and> get_prop u ''id'' = Some (JNum (num ''7''))
          \<and> get_prop u ''name'' = Some (JStr ''Bob''))"
proof -
  define P where "P = [(''id'', JNum (num ''7'')), (''name'', JStr ''Bob'')]"
  have d: "distinct (map fst P)" by (simp add: P_def)
  from normalize_keeps_fields [OF d] obtain u where
    u: "normalize_profile (JObj P) = Inr u"
    and e: "nullish (get_prop (JObj P) ''email'') \<longrightarrow> get_prop u ''email'' = Some JNull"
    and r: "\<forall>k \<in> set (map fst P).
              get_prop u k \<noteq> None
              \<and> (k \<notin> {''user_id'', ''username'', ''email''}
                   \<longrightarrow> get_prop u k = get_prop (JObj P) k)"
    by blast
  from e have "get_prop u ''email'' = Some JNull" by (simp add: P_def)
  moreover from r have "get_prop u ''id'' = Some (JNum (num ''7''))" by (simp add: P_def)
  moreover from r have "get_prop u ''name'' = Some (JStr ''Bob'')" by (simp add: P_def)
  ultimately show ?thesis using u d unfolding P_def by blast
qed

section \<open>Profile resolution\<close>

text \<open>
  Claim C4 says that \<^verbatim>\<open>fetchUserProfile\<close> returns the normalized body of the first
  candidate whose call completes with a success status, without contacting a later one,
  and that it returns \<^verbatim>\<open>null\<close> exactly when every candidate fails by a network error,
  a non-success status or a malformed body. The function does not go by the status alone,
  and it does not ask for a JSON object either. When \<^verbatim>\<open>/auth/me\<close> answers 200 with the
  JSON text \<^verbatim>\<open>null\<close>, reading a property of the body throws, the \<^verbatim>\<open>catch\<close> moves on
  and \<^verbatim>\<open>/auth/user\<close> is contacted. When \<^verbatim>\<open>/auth/me\<close> answers 200 with the JSON text
  \<^verbatim>\<open>5\<close>, which is no JSON object, the result is not \<^verbatim>\<open>null\<close>: it is the object with
  the three canonical fields, all \<^verbatim>\<open>null\<close>. So the claim fails if \<^verbatim>\<open>null\<close> is a
  well-formed body, by the first case, and if only a JSON object is one, by the second.
\<close>

theorem fetchUserProfile_null_and_number_bodies:
  "fetchUserProfile
     (browser [(''/auth/me'', Inr \<lparr>status = 200, payload = Some JNull\<rparr>),
               (''/auth/user'', Inr \<lparr>status = 200, payload = Some (JObj [(''id'', JNum (num ''7''))])\<rparr>)])
     (JStr ''T1'') PROFILE_CANDIDATES login_page
   = (JObj [(''user_id'', JNum (num ''7'')), (''username'', JNull), (''email'', JNull), (''id'', JNum (num ''7''))],
      contact ''T1'' [''/auth/me'', ''/auth/user''] login_page)
   \<and> fetchUserProfile
       (browser [(''/auth/me'', Inr \<lparr>status = 200, payload = Some (JNum (num ''5''))\<rparr>)])
       (JStr ''T1'') PROFILE_CANDIDATES login_page
     = (JObj [(''user_id'', JNull), (''username'', JNull), (''email'', JNull)],
        contact ''T1'' [''/auth/me''] login_page)"
  by (simp add: PROFILE_CANDIDATES_def fetch_def try_candidate_def json_def page_simps eval_simps)

text \<open>
  Claim C4, amended. A candidate fails when its request ends in a network error, when its
  status is not a success status, or when its body is not JSON text or is the JSON value
  \<^verbatim>\<open>null\<close>; a body that is any other JSON value, object or not, is normalized.
  For every token that has a text, which every string has, \<^verbatim>\<open>fetchUserProfile\<close>
  asks the candidates in list order. When the candidates \<open>pre\<close> all fail and the next
  one, \<open>c\<close>, does not, it returns the normalized body of \<open>c\<close>, which is an object,
  and the requests sent are those for \<open>pre\<close> and \<open>c\<close> only: no candidate after
  \<open>c\<close> is contacted. When all candidates fail it returns \<^verbatim>\<open>null\<close> after asking
  each of them, and it returns \<^verbatim>\<open>null\<close> in no other case.
\<close>

theorem fetchUserProfile_first_success:
  "(\<forall>bearer. to_string E jwt = Inr bearer \<longrightarrow>
      (all_fail E bearer pre w
         \<and> \<not> candidate_fails (net E (events (contact bearer pre w)) (profile_request bearer c))
       \<longrightarrow> (\<exists>res data u.
              net E (events (contact bearer pre w)) (profile_request bearer c) = Inr res
              \<and> ok res \<and> payload res = Some data \<and> normalize_profile data = Inr u \<and> u \<noteq> JNull
              \<and> fetchUserProfile E jwt (pre @ c # post) w = (u, contact bearer (pre @ [c]) w)))
      \<and> (all_fail E bearer cands w
           \<longrightarrow> fetchUserProfile E jwt cands w = (JNull, contact bearer cands w))
      \<and> (fst (fetchUserProfile E jwt cands w) = JNull \<longleftrightarrow> all_fail E bearer cands w))
   \<and> (\<forall>s. to_string E (JStr s) = Inr s)"
proof -
  have 1: "all_fail E bearer pre w
         \<and> \<not> candidate_fails (net E (events (contact bearer pre w)) (profile_request bearer c))
       \<longrightarrow> (\<exists>res data u.
              net E (events (contact bearer pre w)) (profile_request bearer c) = Inr res
              \<and> ok res \<and> payload res = Some data \<and> normalize_profile data = Inr u \<and> u \<noteq> JNull
              \<and> fetchUserProfile E jwt (pre @ c # post) w = (u, contact bearer (pre @ [c]) w))"
    if "to_string E jwt = Inr bearer" for bearer
    using fetchUserProfile_success_after [OF that, of pre w c post] by blast
  have 2: "all_fail E bearer cands w
           \<longrightarrow> fetchUserProfile E jwt cands w = (JNull, contact bearer cands w)"
    if "to_string E jwt = Inr bearer" for bearer
    using fetchUserProfile_all_fail [OF that, of cands w] by blast
  have 3: "fst (fetchUserProfile E jwt cands w) = JNull \<longleftrightarrow> all_fail E bearer cands w"
    if "to_string E jwt = Inr bearer" for bearer
    using fetchUserProfile_null_iff [OF that, of cands w] .
  have 4: "\<forall>s. to_string E (JStr s) = Inr s" by simp
  from 1 2 3 4 show ?thesis by blast
qed

theorem fetchUserProfile_first_success_witness:
  "to_string
     (browser [(''/auth/me'', Inl NetworkFailure),
               (''/auth/user'', Inr \<lparr>status = 200,
                   payload = Some (JObj [(''id'', JNum (num ''7'')), (''name'', JStr ''Bob'')])\<rparr>)])
     (JStr ''T2'') = Inr ''T2''
   \<and> all_fail
     (browser [(''/auth/me'', Inl NetworkFailure),
               (''/auth/user'', Inr \<lparr>status = 200,
                   payload = Some (JObj [(''id'', JNum (num ''7'')), (''name'', JStr ''Bob'')])\<rparr>)])
     ''T2'' [''/auth/me''] login_page
   \<and> fetchUserProfile
       (browser [(''/auth/me'', Inl NetworkFailure),
                 (''/auth/user'', Inr \<lparr>status = 200,
                     payload = Some (JObj [(''id'', JNum (num ''7'')), (''name'', JStr ''Bob'')])\<rparr>)])
       (JStr ''T2'') ([''/auth/me''] @ ''/auth/user'' # [''/auth/profile'']) login_page
     = (JObj [(''user_id'', JNum (num ''7'')), (''username'', JStr ''Bob''), (''email'', JNull),
              (''id'', JNum (num ''7'')), (''name'', JStr ''Bob'')],
        contact ''T2'' ([''/auth/me''] @ [''/auth/user'']) login_page)
   \<and> all_fail (browser []) ''T1'' PROFILE_CANDIDATES login_page
   \<and> fetchUserProfile (browser []) (JStr ''T1'') PROFILE_CANDIDATES login_page
     = (JNull, contact ''T1'' PROFILE_CANDIDATES login_page)"
proof -
  define E where "E = browser [(''/auth/me'', Inl NetworkFailure),
               (''/auth/user'', Inr \<lparr>status = 200,
                   payload = Some (JObj [(''id'', JNum (num ''7'')), (''name'', JStr ''Bob'')])\<rparr>)]"
  have t: "to_string E (JStr ''T2'') = Inr ''T2''" by simp
  have a: "all_fail E ''T2'' [''/auth/me''] login_page"
    by (simp add: E_def page_simps)
  have out: "net E (events (contact ''T2'' [''/auth/me''] login_page))
               (profile_request ''T2'' ''/auth/user'')
             = Inr \<lparr>status = 200, payload = Some (JObj [(''id'', JNum (num ''7'')), (''name'', JStr ''Bob'')])\<rparr>"
    by (simp add: E_def page_simps)
  have b: "\<not> candidate_fails (net E (events (contact ''T2'' [''/auth/me''] login_page))
               (profile_request ''T2'' ''/auth/user''))"
    unfolding out by (simp add: candidate_fails_def ok_def)
  have n: "normalize_profile (JObj [(''id'', JNum (num ''7'')), (''name'', JStr ''Bob'')])
      = Inr (JObj [(''user_id'', JNum (num ''7'')), (''username'', JStr ''Bob''), (''email'', JNull),
              (''id'', JNum (num ''7'')), (''name'', JStr ''Bob'')])"
    by (simp add: eval_simps)
  have 1: "fetchUserProfile E (JStr ''T2'') ([''/auth/me''] @ ''/auth/user'' # [''/auth/profile''])
             login_page
     = (JObj [(''user_id'', JNum (num ''7'')), (''username'', JStr ''Bob''), (''email'', JNull),
              (''id'', JNum (num ''7'')), (''name'', JStr ''Bob'')],
        contact ''T2'' ([''/auth/me''] @ [''/auth/user'']) login_page)"
    using fetchUserProfile_first_success
      [of E "JStr ''T2''" "[''/auth/me'']" login_page "''/auth/user''" "[''/auth/profile'']"]
      t a b out n
    by auto
  have t1: "to_string (browser []) (JStr ''T1'') = Inr ''T1''" by simp
  have c: "all_fail (browser []) ''T1'' PROFILE_CANDIDATES login_page"
    by (simp add: PROFILE_CANDIDATES_def page_simps)
  have 2: "fetchUserProfile (browser []) (JStr ''T1'') PROFILE_CANDIDATES login_page
     = (JNull, contact ''T1'' PROFILE_CANDIDATES login_page)"
    using fetchUserProfile_first_success
      [of "browser []" "JStr ''T1''" _ login_page _ _ PROFILE_CANDIDATES] t1 c
    by blast
  from t a 1 c 2 show ?thesis unfolding E_def by blast
qed

text \<open>
  A token whose conversion to a string throws: the template literal throws inside every
  \<^verbatim>\<open>try\<close> block, so no candidate is contacted and the result is \<^verbatim>\<open>null\<close>, whatever
  the candidates would answer.
\<close>

lemma fetchUserProfile_unprintable_token:
  "to_string
     (browser [(''/auth/me'', Inr \<lparr>status = 200, payload = Some (JObj [(''id'', JNum (num ''7''))])\<rparr>)])
     (JObj [(''toString'', JNum (num ''1''))]) = Inl TypeError
   \<and> fetchUserProfile
       (browser [(''/auth/me'', Inr \<lparr>status = 200, payload = Some (JObj [(''id'', JNum (num ''7''))])\<rparr>)])
       (JObj [(''toString'', JNum (num ''1''))]) PROFILE_CANDIDATES login_page
     = (JNull, login_page)"
  by (simp add: to_string_def fetchUserProfile_no_text)

section \<open>The submit handler: failures\<close>

text \<open>
  Claim C5 says that after a non-success status the handler shows the \<^verbatim>\<open>detail\<close> string
  of the body when there is one and the fallback otherwise. The handler passes
  \<^verbatim>\<open>err?.detail || message\<close> to \<^verbatim>\<open>showError\<close>. So it does not show the fallback for
  every \<^verbatim>\<open>detail\<close> that is no string: for the body of a 422 validation error, whose
  \<^verbatim>\<open>detail\<close> is a list of objects, the page shows \<^verbatim>\<open>[object Object]\<close>. And it
  does not show every \<^verbatim>\<open>detail\<close> string: for the empty string it shows the fallback.
\<close>

theorem login_failure_detail_list:
  "error_box
     (on_submit
        (browser [(''/auth/login'',
                   Inr \<lparr>status = 422,
                        payload = Some (JObj [(''detail'',
                                    JArr [JObj [(''msg'', JStr ''field required'')]])])\<rparr>)])
        [] login_page)
   = Some ''[object Object]''
   \<and> ''[object Object]'' \<noteq> MSG_CREDENTIALS
   \<and> error_box
     (on_submit
        (browser [(''/auth/login'',
                   Inr \<lparr>status = 401, payload = Some (JObj [(''detail'', JStr [])])\<rparr>)])
        [] login_page)
   = Some MSG_CREDENTIALS
   \<and> MSG_CREDENTIALS \<noteq> []"
  by (simp add: on_submit_cases login_outcome_def page_simps login_request_def ENDPOINT_LOGIN_def
        failure_message_def json_def opt_prop_def or_value_def MSG_CREDENTIALS_def
        caught_def showError_def to_string_def display_def submitted_def clearError_def)

text \<open>
  Claim C5, amended: after a non-success status the handler shows the \<^verbatim>\<open>detail\<close> of
  the body when the body is JSON and its \<^verbatim>\<open>detail\<close> is a non-empty string, and the
  fallback \<^verbatim>\<open>Credenciales invalidas.\<close> when the body is not JSON or its \<^verbatim>\<open>detail\<close> is
  missing or falsy (\<^verbatim>\<open>null\<close>, \<^verbatim>\<open>false\<close>, \<^verbatim>\<open>0\<close>, the empty string); in these cases
  the page is the page on which the login request was sent, with that text displayed and
  nothing else changed. Whatever the body is, the handler then stops: after the login
  request it sends no request and writes no storage key, it only shows a text or logs an
  error; the storage is unchanged and there is no navigation.
\<close>

theorem login_failure_halts:
  assumes "login_outcome E fd w = Inr res" and "\<not> ok res"
  shows "storage (on_submit E fd w) = storage w
     \<and> location (on_submit E fd w) = location w
     \<and> (\<exists>shown. events (on_submit E fd w)
                   = events w @ [PreventDefault, Fetch (login_request fd)] @ shown
                 \<and> (\<forall>e \<in> set shown. e = ConsoleError \<or> (\<exists>t. e = Alert t)))
     \<and> (\<forall>body s. payload res = Some body \<and> get_prop body ''detail'' = Some (JStr s) \<and> s \<noteq> []
          \<longrightarrow> on_submit E fd w = display s (submitted fd w))
     \<and> (payload res = None \<longrightarrow> on_submit E fd w = display MSG_CREDENTIALS (submitted fd w))
     \<and> (\<forall>body. payload res = Some body \<and> \<not> truthy_opt (get_prop body ''detail'')
          \<longrightarrow> on_submit E fd w = display MSG_CREDENTIALS (submitted fd w))
     \<and> (\<forall>t. storage (display t (submitted fd w)) = storage w
            \<and> location (display t (submitted fd w)) = location w
            \<and> (error_box w \<noteq> None \<longrightarrow>
                 error_box (display t (submitted fd w)) = Some t
                 \<and> events (display t (submitted fd w))
                     = events w @ [PreventDefault, Fetch (login_request fd)])
            \<and> (error_box w = None \<longrightarrow>
                 error_box (display t (submitted fd w)) = None
                 \<and> events (display t (submitted fd w))
                     = events w @ [PreventDefault, Fetch (login_request fd), Alert t]))"
proof -
  let ?m = "failure_message res"
  let ?w = "submitted fd w"
  have w: "on_submit E fd w = caught E (showError E ?m ?w)"
    using assms by (simp add: on_submit_cases)
  have cases: "on_submit E fd w = on_exception E ?w \<or> (\<exists>t. on_submit E fd w = display t ?w)"
    by (cases "to_string E ?m")
       (auto simp: w caught_def failure_message_truthy showError_text showError_no_text)
  have 1: "storage (on_submit E fd w) = storage w" "location (on_submit E fd w) = location w"
    using cases by auto
  have 2: "\<exists>shown. events (on_submit E fd w)
                   = events w @ [PreventDefault, Fetch (login_request fd)] @ shown
                 \<and> (\<forall>e \<in> set shown. e = ConsoleError \<or> (\<exists>t. e = Alert t))"
  proof (cases "error_box w")
    case None
    from cases show ?thesis
    proof
      assume "on_submit E fd w = on_exception E ?w"
      then have "events (on_submit E fd w)
          = events w @ [PreventDefault, Fetch (login_request fd)] @ [Alert MSG_CONNECT, ConsoleError]"
        by (simp add: None)
      then show ?thesis by (intro exI [of _ "[Alert MSG_CONNECT, ConsoleError]"]) simp
    next
      assume "\<exists>t. on_submit E fd w = display t ?w"
      then obtain t where "on_submit E fd w = display t ?w" ..
      then have "events (on_submit E fd w)
          = events w @ [PreventDefault, Fetch (login_request fd)] @ [Alert t]"
        by (simp add: None)
      then show ?thesis by (intro exI [of _ "[Alert t]"]) simp
    qed
  next
    case (Some old)
    from cases show ?thesis
    proof
      assume "on_submit E fd w = on_exception E ?w"
      then have "events (on_submit E fd w)
          = events w @ [PreventDefault, Fetch (login_request fd)] @ [ConsoleError]"
        by (simp add: Some)
      then show ?thesis by (intro exI [of _ "[ConsoleError]"]) simp
    next
      assume "\<exists>t. on_submit E fd w = display t ?w"
      then obtain t where "on_submit E fd w = display t ?w" ..
      then have "events (on_submit E fd w)
          = events w @ [PreventDefault, Fetch (login_request fd)] @ []"
        by (simp add: Some)
      then show ?thesis by (intro exI [of _ "[]"]) simp
    qed
  qed
  have 3: "\<forall>body s. payload res = Some body \<and> get_prop body ''detail'' = Some (JStr s) \<and> s \<noteq> []
          \<longrightarrow> on_submit E fd w = display s ?w"
    by (auto simp: w caught_def showError_def failure_message_def json_def or_value_def opt_prop_get)
  have 4: "payload res = None \<longrightarrow> on_submit E fd w = display MSG_CREDENTIALS ?w"
    by (auto simp: w caught_def showError_def failure_message_def json_def MSG_CREDENTIALS_def)
  have 5: "\<forall>body. payload res = Some body \<and> \<not> truthy_opt (get_prop body ''detail'')
          \<longrightarrow> on_submit E fd w = display MSG_CREDENTIALS ?w"
    by (auto simp: w caught_def showError_def failure_message_def json_def or_value_def
          opt_prop_get MSG_CREDENTIALS_def split: option.splits)
  have 6: "\<forall>t. storage (display t ?w) = storage w
            \<and> location (display t ?w) = location w
            \<and> (error_box w \<noteq> None \<longrightarrow>
                 error_box (display t ?w) = Some t
                 \<and> events (display t ?w) = events w @ [PreventDefault, Fetch (login_request fd)])
            \<and> (error_box w = None \<longrightarrow>
                 error_box (display t ?w) = None
                 \<and> events (display t ?w)
                     = events w @ [PreventDefault, Fetch (login_request fd), Alert t])"
    by auto
  from 1 2 3 4 5 6 show ?thesis by blast
qed

theorem login_failure_halts_witness:
  "login_outcome
     (browser [(''/auth/login'',
                Inr \<lparr>status = 401, payload = Some (JObj [(''detail'', JStr ''Bad credentials'')])\<rparr>)])
     [(''username'', ''alice''), (''password'', ''x'')] login_page
   = Inr \<lparr>status = 401, payload = Some (JObj [(''detail'', JStr ''Bad credentials'')])\<rparr>
   \<and> \<not> ok \<lparr>status = 401, payload = Some (JObj [(''detail'', JStr ''Bad credentials'')])\<rparr>
   \<and> storage (on_submit
        (browser [(''/auth/login'',
                Inr \<lparr>status = 401, payload = Some (JObj [(''detail'', JStr ''Bad credentials'')])\<rparr>)])
        [(''username'', ''alice''), (''password'', ''x'')] login_page) = Map.empty
   \<and> location (on_submit
        (browser [(''/auth/login'',
                Inr \<lparr>status = 401, payload = Some (JObj [(''detail'', JStr ''Bad credentials'')])\<rparr>)])
        [(''username'', ''alice''), (''password'', ''x'')] login_page) = None
   \<and> error_box (on_submit
        (browser [(''/auth/login'',
                Inr \<lparr>status = 401, payload = Some (JObj [(''detail'', JStr ''Bad credentials'')])\<rparr>)])
        [(''username'', ''alice''), (''password'', ''x'')] login_page) = Some ''Bad credentials''
   \<and> events (on_submit
        (browser [(''/auth/login'',
                Inr \<lparr>status = 401, payload = Some (JObj [(''detail'', JStr ''Bad credentials'')])\<rparr>)])
        [(''username'', ''alice''), (''password'', ''x'')] login_page)
     = [PreventDefault, Fetch (login_request [(''username'', ''alice''), (''password'', ''x'')])]"
proof -
  define res where "res = \<lparr>status = 401, payload = Some (JObj [(''detail'', JStr ''Bad credentials'')])\<rparr>"
  define E where "E = browser [(''/auth/login'', Inr res)]"
  define fd where "fd = [(''username'', ''alice''), (''password'', ''x'')]"
  have 1: "login_outcome E fd login_page = Inr res"
    by (simp add: E_def login_outcome_def page_simps login_request_def ENDPOINT_LOGIN_def)
  have 2: "\<not> ok res" by (simp add: res_def ok_def)
  have 3: "payload res = Some (JObj [(''detail'', JStr ''Bad credentials'')])
           \<and> get_prop (JObj [(''detail'', JStr ''Bad credentials'')]) ''detail''
               = Some (JStr ''Bad credentials'') \<and> ''Bad credentials'' \<noteq> []"
    by (simp add: res_def)
  have 4: "storage login_page = Map.empty" "location login_page = None"
    "error_box login_page \<noteq> None" "events login_page = []"
    by (simp_all add: login_page_def)
  from login_failure_halts [OF 1 2] 3 have
    "on_submit E fd login_page = display ''Bad credentials'' (submitted fd login_page)"
    by blast
  with 1 2 4 show ?thesis
    unfolding E_def fd_def res_def by auto
qed

text \<open>
  A \<^verbatim>\<open>detail\<close> whose conversion to a string throws takes the handler to its outer
  \<^verbatim>\<open>catch\<close>, which shows the message of a connection failure and logs the error.
\<close>

lemma login_failure_unprintable_detail:
  "on_submit
        (browser [(''/auth/login'',
                   Inr \<lparr>status = 401,
                        payload = Some (JObj [(''detail'', JObj [(''toString'', JNum (num ''1''))])])\<rparr>)])
        [] login_page
     = login_page\<lparr>events := [PreventDefault, Fetch (login_request []), ConsoleError],
                   error_box := Some MSG_CONNECT\<rparr>"
  by (simp add: on_submit_cases login_outcome_def page_simps login_request_def ENDPOINT_LOGIN_def
        failure_message_def json_def opt_prop_def or_value_def MSG_CREDENTIALS_def MSG_CONNECT_def
        caught_def showError_def to_string_def display_def submitted_def clearError_def
        on_exception_def)

text \<open>
  Claim C9: when the login response has a success status and a body that is not JSON,
  the handler ends in its outer \<^verbatim>\<open>catch\<close>, exactly as after a transport failure: it
  shows \<^verbatim>\<open>No se pudo conectar con el servidor.\<close>, which is neither of the two other
  messages, logs the error, writes nothing to the storage and does not navigate.
\<close>

theorem login_unparsable_body:
  assumes "login_outcome E fd w = Inr res" and "ok res" and "payload res = None"
  shows "on_submit E fd w = on_exception E (submitted fd w)
     \<and> storage (on_submit E fd w) = storage w
     \<and> location (on_submit E fd w) = location w
     \<and> (error_box w \<noteq> None \<longrightarrow>
          error_box (on_submit E fd w) = Some MSG_CONNECT
          \<and> events (on_submit E fd w)
              = events w @ [PreventDefault, Fetch (login_request fd), ConsoleError])
     \<and> (error_box w = None \<longrightarrow>
          error_box (on_submit E fd w) = None
          \<and> events (on_submit E fd w)
              = events w @ [PreventDefault, Fetch (login_request fd), Alert MSG_CONNECT,
                            ConsoleError])
     \<and> MSG_CONNECT \<noteq> MSG_NO_TOKEN \<and> MSG_CONNECT \<noteq> MSG_CREDENTIALS
     \<and> (\<forall>E' e. login_outcome E' fd w = Inl e \<longrightarrow> on_submit E' fd w = on_submit E fd w)"
proof -
  have w: "on_submit E fd w = on_exception E (submitted fd w)"
    using assms by (simp add: on_submit_cases)
  have 1: "storage (on_submit E fd w) = storage w" "location (on_submit E fd w) = location w"
    by (simp_all add: w)
  have 2: "error_box w \<noteq> None \<longrightarrow>
          error_box (on_submit E fd w) = Some MSG_CONNECT
          \<and> events (on_submit E fd w)
              = events w @ [PreventDefault, Fetch (login_request fd), ConsoleError]"
    by (auto simp: w)
  have 3: "error_box w = None \<longrightarrow>
          error_box (on_submit E fd w) = None
          \<and> events (on_submit E fd w)
              = events w @ [PreventDefault, Fetch (login_request fd), Alert MSG_CONNECT,
                            ConsoleError]"
    by (auto simp: w)
  have 4: "MSG_CONNECT \<noteq> MSG_NO_TOKEN" "MSG_CONNECT \<noteq> MSG_CREDENTIALS"
    by (simp_all add: MSG_CONNECT_def MSG_NO_TOKEN_def MSG_CREDENTIALS_def)
  have 5: "\<forall>E' e. login_outcome E' fd w = Inl e \<longrightarrow> on_submit E' fd w = on_submit E fd w"
  proof (intro allI impI)
    fix E' e assume "login_outcome E' fd w = Inl e"
    then have "on_submit E' fd w = on_exception E' (submitted fd w)"
      by (simp add: on_submit_cases)
    then show "on_submit E' fd w = on_submit E fd w"
      by (simp only: w on_exception_display)
  qed
  from w 1 2 3 4 5 show ?thesis by blast
qed

theorem login_unparsable_body_witness:
  "login_outcome (browser [(''/auth/login'', Inr \<lparr>status = 200, payload = None\<rparr>)]) [] login_page
     = Inr \<lparr>status = 200, payload = None\<rparr>
   \<and> ok \<lparr>status = 200, payload = None\<rparr>
   \<and> payload \<lparr>status = 200, payload = None\<rparr> = None
   \<and> error_box (on_submit (browser [(''/auth/login'', Inr \<lparr>status = 200, payload = None\<rparr>)])
        [] login_page) = Some MSG_CONNECT
   \<and> events (on_submit (browser [(''/auth/login'', Inr \<lparr>status = 200, payload = None\<rparr>)])
        [] login_page) = [PreventDefault, Fetch (login_request []), ConsoleError]
   \<and> storage (on_submit (browser [(''/auth/login'', Inr \<lparr>status = 200, payload = None\<rparr>)])
        [] login_page) = Map.empty
   \<and> location (on_submit (browser [(''/auth/login'', Inr \<lparr>status = 200, payload = None\<rparr>)])
        [] login_page) = None"
proof -
  define res where "res = \<lparr>status = 200, payload = (None :: jsval option)\<rparr>"
  define E where "E = browser [(''/auth/login'', Inr res)]"
  have 1: "login_outcome E [] login_page = Inr res"
    by (simp add: E_def login_outcome_def page_simps login_request_def ENDPOINT_LOGIN_def)
  have 2: "ok res" by (simp add: res_def ok_def)
  have 3: "payload res = None" by (simp add: res_def)
  have 4: "storage login_page = Map.empty" "location login_page = None"
    "error_box login_page \<noteq> None" "events login_page = []"
    by (simp_all add: login_page_def)
  from login_unparsable_body [OF 1 2 3] have
    "storage (on_submit E [] login_page) = storage login_page"
    "location (on_submit E [] login_page) = location login_page"
    "error_box login_page \<noteq> None \<longrightarrow>
          error_box (on_submit E [] login_page) = Some MSG_CONNECT
          \<and> events (on_submit E [] login_page)
              = events login_page @ [PreventDefault, Fetch (login_request []), ConsoleError]"
    by blast+
  with 1 2 3 4 show ?thesis
    unfolding E_def res_def by simp
qed

section \<open>The submit handler: success\<close>

text \<open>
  Claim C6: once a token is extracted, the handler first persists the token alone, then
  sends the profile requests (a prefix of the candidate list), then persists token and
  profile together if a profile was found, and last navigates to the redirect address
  built from the profile, or from the empty object when none was found. This is the order
  for every token that has a text, which every string has. The token is in the storage
  from the first step on, whatever the profile requests give, provided the storage accepts
  the write. A step that fails inside \<^verbatim>\<open>saveSession\<close> (a write that the storage
  refuses, a profile that cannot be serialized) leaves a warning in its place, and the
  handler goes on.
\<close>

theorem login_success_order:
  fixes E fd w res data
  defines "token \<equiv> pickToken data"
  defines "w1 \<equiv> saveSession E (Some token) None (submitted fd w)"
  defines "profile \<equiv> fst (fetchUserProfile E token PROFILE_CANDIDATES w1)"
  defines "userdata \<equiv> user_string (JSON_stringify E (if profile = JNull then JObj [] else profile))"
  assumes "login_outcome E fd w = Inr res" and "ok res" and "payload res = Some data"
    and "truthy token"
  shows "(\<forall>tok. to_string E token = Inr tok \<longrightarrow>
            (\<exists>n\<le>length PROFILE_CANDIDATES.
               events (on_submit E fd w) =
                 events w @ [PreventDefault, Fetch (login_request fd)]
                 @ persist_events E (storage w) tok None
                 @ map (\<lambda>p. Fetch (profile_request tok p)) (take n PROFILE_CANDIDATES)
                 @ (if profile = JNull then []
                    else persist_events E (storage w1) tok (Some (JSON_stringify E profile)))
                 @ [Navigate (redirect_url tok userdata)])
            \<and> location (on_submit E fd w) = Some (redirect_url tok userdata)
            \<and> (\<not> refuses E (storage w) ''jwt'' tok
                 \<longrightarrow> storage w1 ''jwt'' = Some tok
                     \<and> storage (on_submit E fd w) ''jwt'' = Some tok))
         \<and> (\<forall>s. to_string E (JStr s) = Inr s)"
proof -
  have w: "on_submit E fd w = caught E (after_token E token (submitted fd w))"
    using assms(5-8) by (simp add: on_submit_cases token_def)
  have 1: "(\<exists>n\<le>length PROFILE_CANDIDATES.
               events (on_submit E fd w) =
                 events w @ [PreventDefault, Fetch (login_request fd)]
                 @ persist_events E (storage w) tok None
                 @ map (\<lambda>p. Fetch (profile_request tok p)) (take n PROFILE_CANDIDATES)
                 @ (if profile = JNull then []
                    else persist_events E (storage w1) tok (Some (JSON_stringify E profile)))
                 @ [Navigate (redirect_url tok userdata)])
            \<and> location (on_submit E fd w) = Some (redirect_url tok userdata)
            \<and> (\<not> refuses E (storage w) ''jwt'' tok
                 \<longrightarrow> storage w1 ''jwt'' = Some tok
                     \<and> storage (on_submit E fd w) ''jwt'' = Some tok)"
    if t: "to_string E token = Inr tok" for tok
  proof -
    have st1: "storage w1 = persist_store E (storage w) tok None"
      using saveSession_token [OF assms(8) t, of "submitted fd w"] by (simp add: w1_def)
    from after_token_effects [OF assms(8) t, of "submitted fd w"]
    obtain n w' where n: "n \<le> length PROFILE_CANDIDATES"
      and at: "after_token E token (submitted fd w) = (Inr (), w')"
      and ev: "events w' =
         events (submitted fd w) @ persist_events E (storage (submitted fd w)) tok None
         @ map (\<lambda>p. Fetch (profile_request tok p)) (take n PROFILE_CANDIDATES)
         @ (if profile = JNull then []
            else persist_events E (storage w1) tok (Some (JSON_stringify E profile)))
         @ [Navigate (redirect_url tok userdata)]"
      and st: "storage w' =
           (if profile = JNull then persist_store E (storage (submitted fd w)) tok None
            else persist_store E (persist_store E (storage (submitted fd w)) tok None)
                   tok (Some (JSON_stringify E profile)))"
      and loc: "location w' = Some (redirect_url tok userdata)"
      unfolding profile_def w1_def userdata_def by blast
    have w': "on_submit E fd w = w'" by (simp add: w at caught_def)
    have a: "\<exists>n\<le>length PROFILE_CANDIDATES.
               events (on_submit E fd w) =
                 events w @ [PreventDefault, Fetch (login_request fd)]
                 @ persist_events E (storage w) tok None
                 @ map (\<lambda>p. Fetch (profile_request tok p)) (take n PROFILE_CANDIDATES)
                 @ (if profile = JNull then []
                    else persist_events E (storage w1) tok (Some (JSON_stringify E profile)))
                 @ [Navigate (redirect_url tok userdata)]"
      using n ev by (intro exI [of _ n]) (simp add: w')
    have b: "location (on_submit E fd w) = Some (redirect_url tok userdata)"
      by (simp add: w' loc)
    have c: "\<not> refuses E (storage w) ''jwt'' tok
                 \<longrightarrow> storage w1 ''jwt'' = Some tok
                     \<and> storage (on_submit E fd w) ''jwt'' = Some tok"
      by (simp add: w' st st1 persist_store_def split: option.splits sum.splits)
    from a b c show ?thesis by blast
  qed
  have 2: "\<forall>s. to_string E (JStr s) = Inr s" by simp
  from 1 2 show ?thesis by blast
qed

theorem login_success_order_witness:
  "login_outcome
     (browser [(''/auth/login'', Inr \<lparr>status = 200, payload = Some (JObj [(''jwt'', JStr ''T2'')])\<rparr>),
               (''/auth/me'', Inr \<lparr>status = 200,
                   payload = Some (JObj [(''id'', JNum (num ''7'')), (''name'', JStr ''Bob'')])\<rparr>)])
     [] login_page
     = Inr \<lparr>status = 200, payload = Some (JObj [(''jwt'', JStr ''T2'')])\<rparr>
   \<and> ok \<lparr>status = 200, payload = Some (JObj [(''jwt'', JStr ''T2'')])\<rparr>
   \<and> truthy (pickToken (JObj [(''jwt'', JStr ''T2'')]))
   \<and> to_string
       (browser [(''/auth/login'', Inr \<lparr>status = 200, payload = Some (JObj [(''jwt'', JStr ''T2'')])\<rparr>),
               (''/auth/me'', Inr \<lparr>status = 200,
                   payload = Some (JObj [(''id'', JNum (num ''7'')), (''name'', JStr ''Bob'')])\<rparr>)])
       (pickToken (JObj [(''jwt'', JStr ''T2'')])) = Inr ''T2''
   \<and> location (on_submit
       (browser [(''/auth/login'', Inr \<lparr>status = 200, payload = Some (JObj [(''jwt'', JStr ''T2'')])\<rparr>),
               (''/auth/me'', Inr \<lparr>status = 200,
                   payload = Some (JObj [(''id'', JNum (num ''7'')), (''name'', JStr ''Bob'')])\<rparr>)])
       [] login_page)
     = Some (redirect_url ''T2''
         (stringify (JObj [(''user_id'', JNum (num ''7'')), (''username'', JStr ''Bob''), (''email'', JNull),
              (''id'', JNum (num ''7'')), (''name'', JStr ''Bob'')])))
   \<and> events (on_submit
       (browser [(''/auth/login'', Inr \<lparr>status = 200, payload = Some (JObj [(''jwt'', JStr ''T2'')])\<rparr>),
               (''/auth/me'', Inr \<lparr>status = 200,
                   payload = Some (JObj [(''id'', JNum (num ''7'')), (''name'', JStr ''Bob'')])\<rparr>)])
       [] login_page)
     = [PreventDefault, Fetch (login_request []), SetItem ''jwt'' ''T2'',
        Fetch (profile_request ''T2'' ''/auth/me''),
        SetItem ''jwt'' ''T2'',
        SetItem ''userdata''
          (stringify (JObj [(''user_id'', JNum (num ''7'')), (''username'', JStr ''Bob''), (''email'', JNull),
              (''id'', JNum (num ''7'')), (''name'', JStr ''Bob'')])),
        Navigate (redirect_url ''T2''
         (stringify (JObj [(''user_id'', JNum (num ''7'')), (''username'', JStr ''Bob''), (''email'', JNull),
              (''id'', JNum (num ''7'')), (''name'', JStr ''Bob'')])))]
   \<and> storage (on_submit
       (browser [(''/auth/login'', Inr \<lparr>status = 200, payload = Some (JObj [(''jwt'', JStr ''T2'')])\<rparr>),
               (''/auth/me'', Inr \<lparr>status = 200,
                   payload = Some (JObj [(''id'', JNum (num ''7'')), (''name'', JStr ''Bob'')])\<rparr>)])
       [] login_page) ''jwt'' = Some ''T2''"
proof -
  define res where "res = \<lparr>status = 200, payload = Some (JObj [(''jwt'', JStr ''T2'')])\<rparr>"
  define E where "E = browser [(''/auth/login'', Inr res),
               (''/auth/me'', Inr \<lparr>status = 200,
                   payload = Some (JObj [(''id'', JNum (num ''7'')), (''name'', JStr ''Bob'')])\<rparr>)]"
  define P where "P = JObj [(''user_id'', JNum (num ''7'')), (''username'', JStr ''Bob''), (''email'', JNull),
              (''id'', JNum (num ''7'')), (''name'', JStr ''Bob'')]"
  have 1: "login_outcome E [] login_page = Inr res"
    by (simp add: E_def login_outcome_def page_simps login_request_def ENDPOINT_LOGIN_def)
  have 2: "ok res" by (simp add: res_def ok_def)
  have 3: "payload res = Some (JObj [(''jwt'', JStr ''T2'')])" by (simp add: res_def)
  have t: "pickToken (JObj [(''jwt'', JStr ''T2'')]) = JStr ''T2''"
    by (simp add: eval_simps)
  have 4: "truthy (pickToken (JObj [(''jwt'', JStr ''T2'')]))"
    by (simp add: t)
  have 5: "to_string E (pickToken (JObj [(''jwt'', JStr ''T2'')])) = Inr ''T2''"
    by (simp add: t)
  have p: "fst (fetchUserProfile E (JStr ''T2'') PROFILE_CANDIDATES
                 (saveSession E (Some (JStr ''T2'')) None (submitted [] login_page))) = P"
    by (simp add: E_def P_def res_def handler_simps eval_simps)
  have s: "JSON_stringify E P = Inr (stringify P)"
    by (simp add: E_def P_def browser_def JSON_stringify_def)
  have r: "\<not> refuses E (storage login_page) ''jwt'' ''T2''"
    by (simp add: E_def browser_def)
  have "location (on_submit E [] login_page) = Some (redirect_url ''T2'' (stringify P))
     \<and> storage (on_submit E [] login_page) ''jwt'' = Some ''T2''"
    using login_success_order [OF 1 2 3 4] 5 r s
    by (simp add: t p user_string_def) (simp add: P_def)
  moreover have "events (on_submit E [] login_page)
     = [PreventDefault, Fetch (login_request []), SetItem ''jwt'' ''T2'',
        Fetch (profile_request ''T2'' ''/auth/me''),
        SetItem ''jwt'' ''T2'', SetItem ''userdata'' (stringify P),
        Navigate (redirect_url ''T2'' (stringify P))]"
    using 1 by (simp add: login_outcome_def E_def P_def res_def handler_simps eval_simps user_string_def)
  ultimately show ?thesis
    using 1 2 4 5 unfolding E_def res_def P_def by simp
qed

text \<open>
  With a storage that refuses every write the handler warns once, after the first write,
  and goes on to the profile requests and to the redirect; the storage stays as it was.
  With an engine that cannot serialize the profile, the second call of \<^verbatim>\<open>saveSession\<close>
  writes the token and warns, and the address carries \<^verbatim>\<open>{}\<close>. With a token whose
  conversion to a string throws, the first step only warns, no request can be built, and
  building the address throws: the handler ends in its outer \<^verbatim>\<open>catch\<close>.
\<close>

lemma login_with_refusing_storage:
  "events
     (on_submit
        \<lparr>net = scripted [(''/auth/login'',
                   Inr \<lparr>status = 200, payload = Some (JObj [(''access_token'', JStr ''T1'')])\<rparr>)],
         refuses = (\<lambda>st k v. True), join_fails = (\<lambda>v. False), serialize_fails = (\<lambda>v. False)\<rparr>
        [] login_page)
   = [PreventDefault, Fetch (login_request []), SetItem ''jwt'' ''T1'', ConsoleWarn,
      Fetch (profile_request ''T1'' ''/auth/me''),
      Fetch (profile_request ''T1'' ''/auth/user''),
      Fetch (profile_request ''T1'' ''/auth/profile''),
      Navigate (redirect_url ''T1'' ''{}'')]
   \<and> storage
     (on_submit
        \<lparr>net = scripted [(''/auth/login'',
                   Inr \<lparr>status = 200, payload = Some (JObj [(''access_token'', JStr ''T1'')])\<rparr>)],
         refuses = (\<lambda>st k v. True), join_fails = (\<lambda>v. False), serialize_fails = (\<lambda>v. False)\<rparr>
        [] login_page)
   = Map.empty"
  by (simp add: handler_simps eval_simps user_string_def)

lemma login_with_failing_serializer:
  "events
     (on_submit
        \<lparr>net = scripted [(''/auth/login'',
                   Inr \<lparr>status = 200, payload = Some (JObj [(''access_token'', JStr ''T1'')])\<rparr>),
                 (''/auth/me'',
                   Inr \<lparr>status = 200, payload = Some (JObj [(''id'', JNum (num ''7''))])\<rparr>)],
         refuses = (\<lambda>st k v. False), join_fails = (\<lambda>v. False), serialize_fails = (\<lambda>v. True)\<rparr>
        [] login_page)
   = [PreventDefault, Fetch (login_request []), SetItem ''jwt'' ''T1'',
      Fetch (profile_request ''T1'' ''/auth/me''),
      SetItem ''jwt'' ''T1'', ConsoleWarn,
      Navigate (redirect_url ''T1'' ''{}'')]
   \<and> storage
     (on_submit
        \<lparr>net = scripted [(''/auth/login'',
                   Inr \<lparr>status = 200, payload = Some (JObj [(''access_token'', JStr ''T1'')])\<rparr>),
                 (''/auth/me'',
                   Inr \<lparr>status = 200, payload = Some (JObj [(''id'', JNum (num ''7''))])\<rparr>)],
         refuses = (\<lambda>st k v. False), join_fails = (\<lambda>v. False), serialize_fails = (\<lambda>v. True)\<rparr>
        [] login_page)
   = [''jwt'' \<mapsto> ''T1'']"
  by (simp add: handler_simps eval_simps user_string_def)

lemma login_with_unprintable_token:
  "on_submit
     (browser [(''/auth/login'',
                Inr \<lparr>status = 200,
                     payload = Some (JObj [(''access_token'', JObj [(''toString'', JNum (num ''1''))])])\<rparr>),
               (''/auth/me'',
                Inr \<lparr>status = 200, payload = Some (JObj [(''id'', JNum (num ''7''))])\<rparr>)])
     [] login_page
   = login_page\<lparr>events := [PreventDefault, Fetch (login_request []), ConsoleWarn, ConsoleError],
                 error_box := Some MSG_CONNECT\<rparr>"
  by (simp add: handler_simps eval_simps MSG_CONNECT_def)

text \<open>
  Claim C10: \<^verbatim>\<open>saveSession\<close> removes no entry and touches no key but \<^verbatim>\<open>jwt\<close> and
  \<^verbatim>\<open>userdata\<close>; it writes \<^verbatim>\<open>jwt\<close> only for a truthy token and \<^verbatim>\<open>userdata\<close> only for a
  truthy profile. So a login whose profile resolution fails, that is, returns
  \<^verbatim>\<open>null\<close>, leaves the \<^verbatim>\<open>userdata\<close> entry of an earlier login as it was, and replaces
  the \<^verbatim>\<open>jwt\<close> entry by the text of the token. That write, like every write of
  \<^verbatim>\<open>saveSession\<close>, lands when the token has a text, which every string has, and the
  storage accepts it; otherwise \<^verbatim>\<open>saveSession\<close> only warns and the storage stays as it
  was.
\<close>

theorem saveSession_only_adds:
  "dom (storage w) \<subseteq> dom (storage (saveSession E jwt user w))
   \<and> (\<forall>k. k \<noteq> ''jwt'' \<and> k \<noteq> ''userdata'' \<longrightarrow> storage (saveSession E jwt user w) k = storage w k)
   \<and> (storage (saveSession E jwt user w) ''jwt'' \<noteq> storage w ''jwt'' \<longrightarrow> truthy_opt jwt)
   \<and> (storage (saveSession E jwt user w) ''userdata'' \<noteq> storage w ''userdata'' \<longrightarrow> truthy_opt user)
   \<and> (login_outcome E fd w0 = Inr res \<and> ok res \<and> payload res = Some data
        \<and> truthy (pickToken data)
        \<and> fst (fetchUserProfile E (pickToken data) PROFILE_CANDIDATES
                 (saveSession E (Some (pickToken data)) None (submitted fd w0))) = JNull
      \<longrightarrow> storage (on_submit E fd w0) ''userdata'' = storage w0 ''userdata''
          \<and> (\<forall>tok. to_string E (pickToken data) = Inr tok
                    \<and> \<not> refuses E (storage w0) ''jwt'' tok
               \<longrightarrow> storage (on_submit E fd w0) = (storage w0)(''jwt'' \<mapsto> tok))
          \<and> (\<forall>tok. to_string E (pickToken data) = Inr tok
                    \<and> refuses E (storage w0) ''jwt'' tok
               \<longrightarrow> storage (on_submit E fd w0) = storage w0)
          \<and> (\<forall>e. to_string E (pickToken data) = Inl e
               \<longrightarrow> storage (on_submit E fd w0) = storage w0))
   \<and> (\<forall>s. to_string E (JStr s) = Inr s)
   \<and> (\<exists>tr. events (saveSession E jwt user w) = events w @ tr
          \<and> (\<not> truthy_opt jwt \<longrightarrow> (\<forall>v. SetItem ''jwt'' v \<notin> set tr))
          \<and> (\<not> truthy_opt user \<longrightarrow> (\<forall>v. SetItem ''userdata'' v \<notin> set tr)))"
proof -
  let ?s = "storage (saveSession E jwt user w)"
  obtain r w1 where j: "save_jwt E jwt w = (r, w1)" by (cases "save_jwt E jwt w")
  have s1: "storage w1 = storage w
     \<or> (\<exists>t tok. jwt = Some t \<and> truthy t \<and> storage w1 = (storage w)(''jwt'' \<mapsto> tok))"
    using save_jwt_storage [of E jwt w] by (auto simp: j)
  have s2: "?s = storage w1
     \<or> (\<exists>u. user = Some u \<and> truthy u \<and> ?s = (storage w1)(''userdata'' \<mapsto> stringify u))"
    using save_user_storage [of E user w1]
    by (cases r) (auto simp: saveSession_storage j)
  have 1: "dom (storage w) \<subseteq> dom ?s"
    using s1 s2 by auto
  have 2: "\<forall>k. k \<noteq> ''jwt'' \<and> k \<noteq> ''userdata'' \<longrightarrow> ?s k = storage w k"
    using s1 s2 by auto
  have 3: "?s ''jwt'' \<noteq> storage w ''jwt'' \<longrightarrow> truthy_opt jwt"
    using s1 s2 by auto
  have 4: "?s ''userdata'' \<noteq> storage w ''userdata'' \<longrightarrow> truthy_opt user"
    using s1 s2 by auto
  have 5: "login_outcome E fd w0 = Inr res \<and> ok res \<and> payload res = Some data
        \<and> truthy (pickToken data)
        \<and> fst (fetchUserProfile E (pickToken data) PROFILE_CANDIDATES
                 (saveSession E (Some (pickToken data)) None (submitted fd w0))) = JNull
      \<longrightarrow> storage (on_submit E fd w0) ''userdata'' = storage w0 ''userdata''
          \<and> (\<forall>tok. to_string E (pickToken data) = Inr tok
                    \<and> \<not> refuses E (storage w0) ''jwt'' tok
               \<longrightarrow> storage (on_submit E fd w0) = (storage w0)(''jwt'' \<mapsto> tok))
          \<and> (\<forall>tok. to_string E (pickToken data) = Inr tok
                    \<and> refuses E (storage w0) ''jwt'' tok
               \<longrightarrow> storage (on_submit E fd w0) = storage w0)
          \<and> (\<forall>e. to_string E (pickToken data) = Inl e
               \<longrightarrow> storage (on_submit E fd w0) = storage w0)"
  proof (intro impI, elim conjE)
    assume a: "login_outcome E fd w0 = Inr res" "ok res" "payload res = Some data"
      "truthy (pickToken data)"
      "fst (fetchUserProfile E (pickToken data) PROFILE_CANDIDATES
                 (saveSession E (Some (pickToken data)) None (submitted fd w0))) = JNull"
    have w: "on_submit E fd w0 = caught E (after_token E (pickToken data) (submitted fd w0))"
      using a(1-4) by (simp add: on_submit_cases)
    have no: "storage (on_submit E fd w0) = storage w0" if "to_string E (pickToken data) = Inl e" for e
      by (simp add: w after_token_no_text [OF a(4) that] caught_def)
    have yes: "storage (on_submit E fd w0) = persist_store E (storage w0) tok None"
      if "to_string E (pickToken data) = Inr tok" for tok
      using after_token_effects [OF a(4) that, of "submitted fd w0"] a(5)
      by (auto simp: w caught_def)
    have u: "storage (on_submit E fd w0) ''userdata'' = storage w0 ''userdata''"
    proof (cases "to_string E (pickToken data)")
      case (Inl e)
      then show ?thesis by (simp add: no)
    next
      case (Inr tok)
      then show ?thesis by (simp add: yes persist_store_def)
    qed
    show "storage (on_submit E fd w0) ''userdata'' = storage w0 ''userdata''
          \<and> (\<forall>tok. to_string E (pickToken data) = Inr tok
                    \<and> \<not> refuses E (storage w0) ''jwt'' tok
               \<longrightarrow> storage (on_submit E fd w0) = (storage w0)(''jwt'' \<mapsto> tok))
          \<and> (\<forall>tok. to_string E (pickToken data) = Inr tok
                    \<and> refuses E (storage w0) ''jwt'' tok
               \<longrightarrow> storage (on_submit E fd w0) = storage w0)
          \<and> (\<forall>e. to_string E (pickToken data) = Inl e
               \<longrightarrow> storage (on_submit E fd w0) = storage w0)"
      using u no by (auto simp: yes persist_store_def)
  qed
  have 6: "\<forall>s. to_string E (JStr s) = Inr s" by simp
  from 1 2 3 4 5 6 saveSession_writes [of E jwt user w] show ?thesis by blast
qed

theorem saveSession_only_adds_witness:
  "login_outcome
      (browser [(''/auth/login'',
                 Inr \<lparr>status = 200, payload = Some (JObj [(''access_token'', JStr ''T1'')])\<rparr>)])
      [(''username'', ''alice''), (''password'', ''x'')]
      (login_page\<lparr>storage := [''jwt'' \<mapsto> ''T0'', ''userdata'' \<mapsto> ''{}'']\<rparr>)
     = Inr \<lparr>status = 200, payload = Some (JObj [(''access_token'', JStr ''T1'')])\<rparr>
   \<and> fst (fetchUserProfile
       (browser [(''/auth/login'',
                 Inr \<lparr>status = 200, payload = Some (JObj [(''access_token'', JStr ''T1'')])\<rparr>)])
       (JStr ''T1'') PROFILE_CANDIDATES
       (saveSession
          (browser [(''/auth/login'',
                 Inr \<lparr>status = 200, payload = Some (JObj [(''access_token'', JStr ''T1'')])\<rparr>)])
          (Some (JStr ''T1'')) None
          (submitted [(''username'', ''alice''), (''password'', ''x'')]
             (login_page\<lparr>storage := [''jwt'' \<mapsto> ''T0'', ''userdata'' \<mapsto> ''{}'']\<rparr>))))
     = JNull
   \<and> storage
       (on_submit
          (browser [(''/auth/login'',
                 Inr \<lparr>status = 200, payload = Some (JObj [(''access_token'', JStr ''T1'')])\<rparr>)])
          [(''username'', ''alice''), (''password'', ''x'')]
          (login_page\<lparr>storage := [''jwt'' \<mapsto> ''T0'', ''userdata'' \<mapsto> ''{}'']\<rparr>))
     = [''jwt'' \<mapsto> ''T1'', ''userdata'' \<mapsto> ''{}'']"
proof -
  define res where "res = \<lparr>status = 200, payload = Some (JObj [(''access_token'', JStr ''T1'')])\<rparr>"
  define E where "E = browser [(''/auth/login'', Inr res)]"
  define fd where "fd = [(''username'', ''alice''), (''password'', ''x'')]"
  define w0 where "w0 = login_page\<lparr>storage := [''jwt'' \<mapsto> ''T0'', ''userdata'' \<mapsto> ''{}'']\<rparr>"
  have t: "pickToken (JObj [(''access_token'', JStr ''T1'')]) = JStr ''T1''"
    by (simp add: eval_simps)
  have 1: "login_outcome E fd w0 = Inr res"
    by (simp add: E_def login_outcome_def page_simps login_request_def ENDPOINT_LOGIN_def)
  have 2: "ok res" "payload res = Some (JObj [(''access_token'', JStr ''T1'')])"
    by (simp_all add: res_def ok_def)
  have a: "all_fail E ''T1'' PROFILE_CANDIDATES
             (saveSession E (Some (JStr ''T1'')) None (submitted fd w0))"
    by (simp add: E_def PROFILE_CANDIDATES_def page_simps)
  have 3: "fst (fetchUserProfile E (JStr ''T1'') PROFILE_CANDIDATES
             (saveSession E (Some (JStr ''T1'')) None (submitted fd w0))) = JNull"
    using a by (simp add: fetchUserProfile_null_iff [of E "JStr ''T1''" "''T1''"])
  have 4: "to_string E (JStr ''T1'') = Inr ''T1'' \<and> \<not> refuses E (storage w0) ''jwt'' ''T1''"
    by (simp add: E_def browser_def)
  have "storage (on_submit E fd w0) = (storage w0)(''jwt'' \<mapsto> ''T1'')"
    using saveSession_only_adds [of _ E _ _ fd w0 res "JObj [(''access_token'', JStr ''T1'')]"]
      1 2 3 4
    by (simp add: t)
  then have "storage (on_submit E fd w0) = [''jwt'' \<mapsto> ''T1'', ''userdata'' \<mapsto> ''{}'']"
    by (simp add: w0_def login_page_def fun_upd_twist)
  with 1 3 show ?thesis
    unfolding E_def res_def fd_def w0_def by simp
qed

section \<open>The redirect\<close>

text \<open>
  Claim C7: for every token that has a text, which every string has, and for every
  profile, \<^verbatim>\<open>redirectWithParams\<close> navigates to an address whose query string, read back,
  has exactly the three parameters \<^verbatim>\<open>jwt\<close>, \<^verbatim>\<open>browser_url\<close> and \<^verbatim>\<open>userdata\<close>. The
  value of \<^verbatim>\<open>userdata\<close> is valid JSON in every case: it is the serialization of the
  profile, which reads back as the profile, when \<^verbatim>\<open>JSON.stringify\<close> returns; it is
  \<^verbatim>\<open>{}\<close> when \<^verbatim>\<open>JSON.stringify\<close> throws and when the profile is \<^verbatim>\<open>null\<close> or
  \<^verbatim>\<open>undefined\<close>.
\<close>

theorem redirect_parameters:
  fixes E jwt user w
  defines "profile \<equiv> coalesce_value user (JObj [])"
  defines "userdata \<equiv> user_string (JSON_stringify E profile)"
  shows "(\<forall>tok. to_string E jwt = Inr tok \<longrightarrow>
            redirectWithParams E jwt user w = (Inr (), visit (redirect_url tok userdata) w)
            \<and> location (visit (redirect_url tok userdata) w) = Some (redirect_url tok userdata)
            \<and> events (visit (redirect_url tok userdata) w)
                = events w @ [Navigate (redirect_url tok userdata)]
            \<and> parse_query (url_query (redirect_url tok userdata))
                = Some [(''jwt'', tok), (''browser_url'', BROWSER_URL), (''userdata'', userdata)])
     \<and> (\<forall>s. to_string E (JStr s) = Inr s)
     \<and> json_valid userdata
     \<and> (\<forall>s. JSON_stringify E profile = Inr s
           \<longrightarrow> userdata = s \<and> s = stringify profile \<and> json_read s = Some profile)
     \<and> (\<forall>e. JSON_stringify E profile = Inl e \<longrightarrow> userdata = ''{}'')
     \<and> (nullish user \<longrightarrow> userdata = ''{}'')
     \<and> (\<forall>p. user = Some p \<and> p \<noteq> JNull \<longrightarrow> profile = p)"
proof -
  have 1: "redirectWithParams E jwt user w = (Inr (), visit (redirect_url tok userdata) w)
            \<and> location (visit (redirect_url tok userdata) w) = Some (redirect_url tok userdata)
            \<and> events (visit (redirect_url tok userdata) w)
                = events w @ [Navigate (redirect_url tok userdata)]
            \<and> parse_query (url_query (redirect_url tok userdata))
                = Some [(''jwt'', tok), (''browser_url'', BROWSER_URL), (''userdata'', userdata)]"
    if "to_string E jwt = Inr tok" for tok
    using that
    by (simp add: redirectWithParams_def userdata_def profile_def parse_query_params
          redirect_params_def)
  have 2: "\<forall>s. to_string E (JStr s) = Inr s" by simp
  have r: "json_read (stringify profile) = Some profile" by (rule json_read_stringify)
  have "json_read (stringify (JObj [])) = Some (JObj [])" by (rule json_read_stringify)
  then have e: "json_valid ''{}''" by (simp add: json_valid_def)
  have s: "JSON_stringify E profile = Inr (stringify profile) \<or> (\<exists>e. JSON_stringify E profile = Inl e)"
    by (auto simp: JSON_stringify_def split: jsval.splits list.splits)
  have 3: "json_valid userdata"
    using s r e by (auto simp: userdata_def user_string_def json_valid_def)
  have 4: "\<forall>s. JSON_stringify E profile = Inr s
           \<longrightarrow> userdata = s \<and> s = stringify profile \<and> json_read s = Some profile"
    using s r by (auto simp: userdata_def user_string_def)
  have 5: "\<forall>e. JSON_stringify E profile = Inl e \<longrightarrow> userdata = ''{}''"
    by (simp add: userdata_def user_string_def)
  have 6: "nullish user \<longrightarrow> userdata = ''{}''"
    by (cases user rule: nullish.cases)
       (simp_all add: userdata_def profile_def coalesce_value_def JSON_stringify_def user_string_def)
  have 7: "\<forall>p. user = Some p \<and> p \<noteq> JNull \<longrightarrow> profile = p"
    by (simp add: profile_def coalesce_value_def)
  from 1 2 3 4 5 6 7 show ?thesis by blast
qed

theorem redirect_parameters_witness:
  "to_string (browser []) (JStr ''T1'') = Inr ''T1''
   \<and> JSON_stringify (browser []) (JObj [(''id'', JNum (num ''7''))]) = Inr (stringify (JObj [(''id'', JNum (num ''7''))]))
   \<and> redirectWithParams (browser []) (JStr ''T1'') (Some (JObj [(''id'', JNum (num ''7''))])) login_page
       = (Inr (),
          visit ''http://127.0.0.1:3000/?jwt=T1&browser_url=http%3A%2F%2F127.0.0.1%3A8000&userdata=%7B%22id%22%3A7%7D''
            login_page)
   \<and> parse_query (url_query
         ''http://127.0.0.1:3000/?jwt=T1&browser_url=http%3A%2F%2F127.0.0.1%3A8000&userdata=%7B%22id%22%3A7%7D'')
       = Some [(''jwt'', ''T1''), (''browser_url'', ''http://127.0.0.1:8000''),
               (''userdata'', stringify (JObj [(''id'', JNum (num ''7''))]))]
   \<and> json_read (stringify (JObj [(''id'', JNum (num ''7''))])) = Some (JObj [(''id'', JNum (num ''7''))])
   \<and> JSON_stringify ((browser [])\<lparr>serialize_fails := (\<lambda>v. True)\<rparr>) (JObj [(''id'', JNum (num ''7''))])
       = Inl RangeError
   \<and> redirectWithParams ((browser [])\<lparr>serialize_fails := (\<lambda>v. True)\<rparr>) (JStr ''T1'')
         (Some (JObj [(''id'', JNum (num ''7''))])) login_page
       = (Inr (),
          visit ''http://127.0.0.1:3000/?jwt=T1&browser_url=http%3A%2F%2F127.0.0.1%3A8000&userdata=%7B%7D''
            login_page)
   \<and> nullish None
   \<and> redirectWithParams (browser []) (JStr ''T1'') None login_page
       = (Inr (),
          visit ''http://127.0.0.1:3000/?jwt=T1&browser_url=http%3A%2F%2F127.0.0.1%3A8000&userdata=%7B%7D''
            login_page)
   \<and> json_read ''{}'' = Some (JObj [])"
proof -
  define E where "E = browser []"
  define E' where "E' = (browser [])\<lparr>serialize_fails := (\<lambda>v. True)\<rparr>"
  define P where "P = JObj [(''id'', JNum (num ''7''))]"
  define U where "U = stringify P"
  have url_simps: "redirect_url ''T1'' U
       = ''http://127.0.0.1:3000/?jwt=T1&browser_url=http%3A%2F%2F127.0.0.1%3A8000&userdata=%7B%22id%22%3A7%7D''"
    "redirect_url ''T1'' ''{}''
       = ''http://127.0.0.1:3000/?jwt=T1&browser_url=http%3A%2F%2F127.0.0.1%3A8000&userdata=%7B%7D''"
    by (simp_all add: U_def P_def redirect_url_def redirect_params_def url_search_params_def
          form_pair_def form_encode_def form_encode_byte_def form_plain_def utf8_bytes_def
          hex_upper_def FRONT_REDIRECT_def BROWSER_URL_def char_of_eq quote_json_def
          json_escape_def number_text_num number_simps)
  have t: "to_string E (JStr ''T1'') = Inr ''T1''" "to_string E' (JStr ''T1'') = Inr ''T1''"
    by simp_all
  have s: "JSON_stringify E P = Inr U"
    by (simp add: E_def P_def U_def browser_def JSON_stringify_def)
  have s': "JSON_stringify E' P = Inl RangeError"
    by (simp add: E'_def P_def JSON_stringify_def)
  have c: "coalesce_value (Some P) (JObj []) = P" "coalesce_value None (JObj []) = JObj []"
    by (simp_all add: P_def coalesce_value_def)
  have n: "nullish None" by simp
  from redirect_parameters [of E "JStr ''T1''" "Some P" login_page] t(1) s have a:
    "redirectWithParams E (JStr ''T1'') (Some P) login_page
       = (Inr (), visit (redirect_url ''T1'' U) login_page)"
    "parse_query (url_query (redirect_url ''T1'' U))
       = Some [(''jwt'', ''T1''), (''browser_url'', BROWSER_URL), (''userdata'', U)]"
    "json_read U = Some P"
    by (auto simp: c user_string_def)
  from redirect_parameters [of E' "JStr ''T1''" "Some P" login_page] t(2) s' have b:
    "redirectWithParams E' (JStr ''T1'') (Some P) login_page
       = (Inr (), visit (redirect_url ''T1'' ''{}'') login_page)"
    by (simp add: c user_string_def)
  from redirect_parameters [of E "JStr ''T1''" None login_page] t(1) n have d:
    "redirectWithParams E (JStr ''T1'') None login_page
       = (Inr (), visit (redirect_url ''T1'' ''{}'') login_page)"
    "json_read ''{}'' = Some (JObj [])"
    by (simp_all add: c user_string_def JSON_stringify_def)
  note lit = url_simps BROWSER_URL_def
  from t(1) s a(1) [unfolded lit] a(2) [unfolded lit] a(3) s' b [unfolded lit] n
    d(1) [unfolded lit] d(2)
  show ?thesis
    unfolding E_def E'_def P_def U_def by - (intro conjI; assumption)
qed

text \<open>
  For a token whose conversion to a string throws, \<^verbatim>\<open>new URLSearchParams\<close> throws:
  \<^verbatim>\<open>redirectWithParams\<close> throws and the page stays as it was.
\<close>

lemma redirect_unprintable_token:
  "to_string E jwt = Inl e \<Longrightarrow> redirectWithParams E jwt user w = (Inl e, w)"
  by (simp add: redirectWithParams_def)

end
